(* ===== verification/OS_Prelude.thy ===== *)
theory OS_Prelude
  imports Main "HOL-Library.Word" "HOL-Library.Monad_Syntax"
begin

text \<open>
  What every component shares: the machine integer types of the C sources, the
  collections of simplification facts that the components extend, the reading of
  word arithmetic as arithmetic on natural numbers, and the little-endian coding
  of words as byte lists.
\<close>

unbundle bit_operations_syntax

type_synonym u8 = "8 word"
type_synonym u16 = "16 word"
type_synonym u32 = "32 word"
type_synonym u64 = "64 word"

text \<open>A pointer is a 64-bit address; the null pointer is address 0.\<close>

type_synonym ptr = u64

abbreviation NULL :: ptr where
  "NULL \<equiv> 0"

named_theorems mem_simps \<open>reading back what was stored in the byte memory\<close>
named_theorems frame_simps \<open>state fields that an operation leaves alone\<close>
named_theorems word_nat \<open>word arithmetic read as natural number arithmetic\<close>

subsection \<open>Words as natural numbers\<close>

lemma unat_lt_u32: "unat (x :: u32) < 4294967296"
  using unsigned_less [of x] by simp

lemma unat_lt_u64: "unat (x :: u64) < 18446744073709551616"
  using unsigned_less [of x] by simp

lemma unat_ucast_u32_u64 [simp, word_nat]: "unat (ucast (x :: u32) :: u64) = unat x"
  using unat_lt_u32 [of x] by (simp add: unsigned_ucast_eq take_bit_nat_eq_self_iff)

lemma ucast_u64_u32_u64 [simp]: "ucast (ucast (x :: u32) :: u64) = x"
  by (rule bit_word_eqI) (simp add: bit_simps)

lemma unat_ucast_up [word_nat]:
  "LENGTH('a) \<le> LENGTH('b) \<Longrightarrow> unat (ucast (x :: 'a::len word) :: 'b::len word) = unat x"
proof -
  assume "LENGTH('a) \<le> LENGTH('b)"
  then have "(2 :: nat) ^ LENGTH('a) \<le> 2 ^ LENGTH('b)" by (intro power_increasing) simp_all
  with unsigned_less [of x] have "unat x < 2 ^ LENGTH('b)" by (rule less_le_trans)
  then show ?thesis by (simp add: unsigned_ucast_eq take_bit_nat_eq_self_iff)
qed

lemma unat_ucast_bytes [simp]:
  "unat (ucast (b :: u8) :: u16) = unat b" "unat (ucast b :: u32) = unat b" "unat (ucast b :: u64) = unat b"
  "unat (ucast (w :: u16) :: u32) = unat w" "unat (ucast w :: u64) = unat w"
  by (simp_all add: unat_ucast_up)

lemma unat_ucast_u64_u32 [word_nat]:
  "unat (x :: u64) < 4294967296 \<Longrightarrow> unat (ucast x :: u32) = unat x"
  by (simp add: unsigned_ucast_eq take_bit_nat_eq_self_iff)

lemma unat_of_nat_u64 [word_nat]:
  "n < 18446744073709551616 \<Longrightarrow> unat (of_nat n :: u64) = n"
  by (simp add: unsigned_of_nat take_bit_nat_eq_self_iff)

lemma unat_of_nat_mult [word_nat]:
  fixes d :: u64
  assumes "k * unat d < 18446744073709551616"
  shows "unat (of_nat k * d) = k * unat d"
proof -
  have "of_nat k * d = (of_nat (k * unat d) :: u64)" by simp
  then show ?thesis using assms unat_of_nat_u64 [of "k * unat d"] by simp
qed

lemma unat_add_noof [word_nat]:
  fixes a b :: "'a::len word"
  assumes "unat a + unat b < 2 ^ LENGTH('a)"
  shows "unat (a + b) = unat a + unat b"
  using assms by (simp add: unat_word_ariths)

lemma unat_add_of_nat [word_nat]:
  fixes a :: "'a::len word"
  assumes "unat a + n < 2 ^ LENGTH('a)"
  shows "unat (a + of_nat n) = unat a + n"
  using assms by (simp add: unat_word_ariths unsigned_of_nat take_bit_eq_mod mod_add_right_eq)

lemma unat_diff_noof [word_nat]:
  fixes a b :: "'a::len word"
  assumes "unat b \<le> unat a"
  shows "unat (a - b) = unat a - unat b"
  using assms by (simp add: unat_sub word_le_nat_alt)

lemma unat_diff_wrap:
  fixes a b :: "'a::len word"
  assumes "unat a < unat b"
  shows "unat (a - b) = 2 ^ LENGTH('a) + unat a - unat b"
  using assms by (simp add: unat_sub_if')

text \<open>The increment of a loop counter below its bound does not wrap.\<close>

lemma unat_inc_less [word_nat]:
  fixes i n :: "'a::len word"
  assumes "i < n"
  shows "unat (i + 1) = Suc (unat i)"
proof -
  have "unat i + 1 \<le> unat n" using assms by (simp add: word_less_nat_alt)
  also have "unat n < 2 ^ LENGTH('a)" by (rule unsigned_less)
  finally show ?thesis using unat_add_of_nat [of i 1] by simp
qed

lemma inc_measure:
  fixes i n :: "'a::len word"
  shows "i < n \<Longrightarrow> unat n - unat (i + 1) < unat n - unat i"
  by (simp add: unat_inc_less word_less_nat_alt diff_less_mono2)

lemma dec_measure:
  fixes t :: "'a::len word"
  assumes "t \<noteq> 0"
  shows "unat (t - 1) = unat t - 1" "unat (t - 1) < unat t"
proof -
  have "unat t \<noteq> 0" using assms by (simp add: unat_eq_0)
  then show "unat (t - 1) = unat t - 1" using unat_diff_noof [of 1 t] by simp
  then show "unat (t - 1) < unat t" using \<open>unat t \<noteq> 0\<close> by simp
qed

lemma less_induct_up [consumes 1, case_names stop step]:
  fixes i n :: "'a::len word"
  assumes "i \<le> n" and "P n" and "\<And>i. i < n \<Longrightarrow> i + 1 \<le> n \<Longrightarrow> P (i + 1) \<Longrightarrow> P i"
  shows "P i"
  using assms(1)
proof (induction "unat n - unat i" arbitrary: i rule: less_induct)
  case less
  show ?case
  proof (cases "i < n")
    case True
    moreover have le: "i + 1 \<le> n"
      using True by (simp add: word_le_nat_alt unat_inc_less word_less_nat_alt)
    ultimately show ?thesis
      using less(1) [of "i + 1"] assms(3) [of i] inc_measure [of i n] by blast
  next
    case False
    with less.prems assms(2) show ?thesis by simp
  qed
qed

subsection \<open>Lists\<close>

lemma find_SomeD: "find P xs = Some x \<Longrightarrow> P x \<and> x \<in> set xs"
  by (auto simp: find_Some_iff)

lemma and_not_mask: "x AND NOT (mask n) = push_bit n (drop_bit n x)" for x :: "'a::len word"
  by (rule bit_word_eqI) (auto simp: bit_simps)

lemma unat_and_not_mask:
  fixes x :: "'a::len word"
  shows "unat (x AND NOT (mask n)) = 2 ^ n * (unat x div 2 ^ n)"
proof -
  have "unat x < 2 ^ LENGTH('a)" by (rule unsigned_less)
  then have "unat x div 2 ^ n * 2 ^ n < 2 ^ LENGTH('a)"
    by (meson div_times_less_eq_dividend le_less_trans)
  moreover have "unat (push_bit n (drop_bit n x)) = take_bit LENGTH('a) (push_bit n (drop_bit n (unat x)))"
    unfolding unsigned_push_bit_eq unsigned_drop_bit_eq by (simp add: take_bit_nat_eq_self unsigned_less)
  ultimately have "unat (push_bit n (drop_bit n x)) = unat x div 2 ^ n * 2 ^ n"
    by (simp only: push_bit_eq_mult drop_bit_eq_div take_bit_nat_eq_self)
  then show ?thesis by (simp only: and_not_mask mult.commute)
qed

subsection \<open>Little-endian coding\<close>

text \<open>
  The sources read multi-byte values out of byte buffers with casted pointers
  (\<open>*(uint16_t*)&buf[i]\<close>) and store them the same way. On x86-64 the byte at
  the lowest address is the least significant one.
\<close>

primrec le_decode :: "u8 list \<Rightarrow> 'a::len word" where
  "le_decode [] = 0"
| "le_decode (b # bs) = ucast b OR push_bit 8 (le_decode bs)"

primrec le_encode :: "nat \<Rightarrow> 'a::len word \<Rightarrow> u8 list" where
  "le_encode 0 w = []"
| "le_encode (Suc n) w = ucast w # le_encode n (drop_bit 8 w)"

lemma length_le_encode [simp]: "length (le_encode n w) = n"
  by (induction n arbitrary: w) simp_all

lemma le_decode_encode_take_bit:
  "le_decode (le_encode n w) = take_bit (8 * n) (w :: 'a::len word)"
proof (induction n arbitrary: w)
  case (Suc n)
  have "ucast (ucast w :: u8) OR push_bit 8 (take_bit (8 * n) (drop_bit 8 w))
      = take_bit (8 * Suc n) w"
    by (rule bit_eqI) (auto simp: bit_simps)
  with Suc show ?case by simp
qed simp

lemma le_decode_encode [mem_simps]:
  "LENGTH('a) \<le> 8 * n \<Longrightarrow> le_decode (le_encode n w) = (w :: 'a::len word)"
  by (simp add: le_decode_encode_take_bit take_bit_word_eq_self)

end
