(* ===== verification/Byte_Memory.thy ===== *)
theory Byte_Memory
  imports OS_Prelude
begin

text \<open>
  The byte-addressed memory of the machine and the C library routines the kernel
  brings along (\<open>Kernel/Memory/Memory_Utils.c\<close>, \<open>Kernel/Memory/Other_Utils.c\<close>).
  The kernel runs in one identity-mapped address space, so one total function
  from 64-bit addresses to bytes holds the heap, the process stacks, the
  framebuffer and the user image.
\<close>

type_synonym memory = "u64 \<Rightarrow> u8"

subsection \<open>Loads and stores\<close>

primrec load_bytes :: "memory \<Rightarrow> ptr \<Rightarrow> nat \<Rightarrow> u8 list" where
  "load_bytes m a 0 = []"
| "load_bytes m a (Suc n) = m a # load_bytes m (a + 1) n"

primrec store_bytes :: "ptr \<Rightarrow> u8 list \<Rightarrow> memory \<Rightarrow> memory" where
  "store_bytes a [] m = m"
| "store_bytes a (b # bs) m = store_bytes (a + 1) bs (m(a := b))"

definition load16 :: "memory \<Rightarrow> ptr \<Rightarrow> u16" where
  "load16 m a = le_decode (load_bytes m a 2)"

definition load32 :: "memory \<Rightarrow> ptr \<Rightarrow> u32" where
  "load32 m a = le_decode (load_bytes m a 4)"

definition load64 :: "memory \<Rightarrow> ptr \<Rightarrow> u64" where
  "load64 m a = le_decode (load_bytes m a 8)"

definition store16 :: "ptr \<Rightarrow> u16 \<Rightarrow> memory \<Rightarrow> memory" where
  "store16 a v = store_bytes a (le_encode 2 v)"

definition store32 :: "ptr \<Rightarrow> u32 \<Rightarrow> memory \<Rightarrow> memory" where
  "store32 a v = store_bytes a (le_encode 4 v)"

definition store64 :: "ptr \<Rightarrow> u64 \<Rightarrow> memory \<Rightarrow> memory" where
  "store64 a v = store_bytes a (le_encode 8 v)"

text \<open>The addresses of the \<open>n\<close> bytes from \<open>a\<close> on.\<close>

definition span :: "ptr \<Rightarrow> nat \<Rightarrow> ptr set" where
  "span a n = {x. unat (x - a) < n}"

lemma span_offset [simp]: "a + k \<in> span a n \<longleftrightarrow> unat k < n"
  unfolding span_def mem_Collect_eq add_diff_cancel_left' ..

lemma span_disjointD: "A \<inter> B = {} \<Longrightarrow> x \<in> A \<Longrightarrow> y \<in> B \<Longrightarrow> y \<noteq> x"
  by (metis IntI empty_iff)

lemma span_noof:
  assumes "unat a + n \<le> 18446744073709551616"
  shows "x \<in> span a n \<longleftrightarrow> unat a \<le> unat x \<and> unat x < unat a + n"
proof (cases "unat a \<le> unat x")
  case True
  then show ?thesis by (auto simp: span_def unat_diff_noof)
next
  case False
  with assms show ?thesis by (auto simp: span_def unat_diff_wrap)
qed

lemma length_load_bytes [simp]: "length (load_bytes m a n) = n"
  by (induction n arbitrary: a) simp_all

lemma nth_load_bytes [mem_simps]: "i < n \<Longrightarrow> load_bytes m a n ! i = m (a + of_nat i)"
proof (induction n arbitrary: a i)
  case (Suc n)
  then show ?case by (cases i) (simp_all add: algebra_simps)
qed simp

lemma unat_minus_one:
  "unat (x - a) \<noteq> 0 \<Longrightarrow> unat (x - (a + 1)) = unat (x - a) - 1" for x a :: u64
proof -
  assume nz: "unat (x - a) \<noteq> 0"
  have "x - (a + 1) = (x - a) - 1" by simp
  moreover have "unat ((x - a) - 1) = unat (x - a) - unat (1 :: u64)"
    using nz by (intro unat_diff_noof) (simp add: Suc_le_eq)
  ultimately show ?thesis by (simp only: unat_1)
qed

lemma store_bytes_apply [mem_simps]:
  "length bs \<le> 18446744073709551616 \<Longrightarrow>
   store_bytes a bs m x = (if unat (x - a) < length bs then bs ! unat (x - a) else m x)"
proof (induction bs arbitrary: a m)
  case (Cons b bs)
  show ?case
  proof (cases "x = a")
    case True
    have "unat (x - (a + 1)) = 18446744073709551615"
      using True by (simp add: unsigned_minus_1_eq_mask mask_eq_exp_minus_1)
    with Cons True show ?thesis by auto
  next
    case False
    then have nz: "unat (x - a) \<noteq> 0" by (simp add: unat_eq_0)
    with Cons False show ?thesis
      by (auto simp: unat_minus_one nth_Cons')
  qed
qed simp

lemma store_bytes_other:
  "length bs \<le> 18446744073709551616 \<Longrightarrow> x \<notin> span a (length bs) \<Longrightarrow> store_bytes a bs m x = m x"
  by (simp add: store_bytes_apply span_def)

lemma load_bytes_cong:
  "(\<And>x. x \<in> span a n \<Longrightarrow> m x = m' x) \<Longrightarrow> n \<le> 18446744073709551616 \<Longrightarrow>
   load_bytes m a n = load_bytes m' a n"
  by (rule nth_equalityI) (auto simp: nth_load_bytes span_def unat_of_nat_u64)

lemma load_store_bytes [mem_simps]:
  "length bs \<le> 18446744073709551616 \<Longrightarrow> load_bytes (store_bytes a bs m) a (length bs) = bs"
  by (rule nth_equalityI) (auto simp: nth_load_bytes store_bytes_apply unat_of_nat_u64)

lemma store_bytes_append:
  "store_bytes a (xs @ ys) m = store_bytes (a + of_nat (length xs)) ys (store_bytes a xs m)"
  by (induction xs arbitrary: a m) (simp_all add: algebra_simps)

lemma load_bytes_append:
  "load_bytes m a (n + k) = load_bytes m a n @ load_bytes m (a + of_nat n) k"
  by (induction n arbitrary: a) (simp_all add: algebra_simps)

lemma load_store_bytes_disjoint:
  assumes "length bs \<le> 18446744073709551616" and "n \<le> 18446744073709551616"
    and "span a (length bs) \<inter> span b n = {}"
  shows "load_bytes (store_bytes a bs m) b n = load_bytes m b n"
  using assms by (intro load_bytes_cong) (auto intro!: store_bytes_other)


subsection \<open>Typed loads and stores\<close>

lemma span_offset_disjoint:
  assumes "n \<le> unat k" and "unat k + l \<le> 18446744073709551616"
  shows "span a n \<inter> span (a + k) l = {}"
proof -
  have "\<not> unat (x - a) < n" if "unat (x - (a + k)) < l" for x
  proof -
    have "x - a = (x - (a + k)) + k" by simp
    moreover have "unat ((x - (a + k)) + k) = unat (x - (a + k)) + unat k"
      using that assms by (intro unat_add_noof) simp
    ultimately have "unat (x - a) = unat (x - (a + k)) + unat k" by metis
    with assms show ?thesis by linarith
  qed
  then show ?thesis by (auto simp: span_def)
qed

lemma span_sub:
  assumes "unat k + l \<le> n" and "n \<le> 18446744073709551616"
  shows "span (a + k) l \<subseteq> span a n"
proof
  fix x assume x: "x \<in> span (a + k) l"
  have "x - a = (x - (a + k)) + k" by simp
  moreover have "unat ((x - (a + k)) + k) = unat (x - (a + k)) + unat k"
    using x assms by (intro unat_add_noof) (simp add: span_def)
  ultimately have "unat (x - a) = unat (x - (a + k)) + unat k" by metis
  with x assms show "x \<in> span a n" by (simp add: span_def)
qed

lemma load16_cong: "(\<And>x. x \<in> span a 2 \<Longrightarrow> m x = m' x) \<Longrightarrow> load16 m a = load16 m' a"
  using load_bytes_cong [of a 2 m m'] by (simp add: load16_def)

lemma load32_cong: "(\<And>x. x \<in> span a 4 \<Longrightarrow> m x = m' x) \<Longrightarrow> load32 m a = load32 m' a"
  using load_bytes_cong [of a 4 m m'] by (simp add: load32_def)

lemma load64_cong: "(\<And>x. x \<in> span a 8 \<Longrightarrow> m x = m' x) \<Longrightarrow> load64 m a = load64 m' a"
  using load_bytes_cong [of a 8 m m'] by (simp add: load64_def)

lemma store16_other: "x \<notin> span a 2 \<Longrightarrow> store16 a v m x = m x"
  by (simp add: store16_def store_bytes_other)

lemma store32_other: "x \<notin> span a 4 \<Longrightarrow> store32 a v m x = m x"
  by (simp add: store32_def store_bytes_other)

lemma store64_other: "x \<notin> span a 8 \<Longrightarrow> store64 a v m x = m x"
  by (simp add: store64_def store_bytes_other)

lemma load16_store16 [mem_simps]: "load16 (store16 a v m) a = v"
  using load_store_bytes [of "le_encode 2 v" a m]
  by (simp add: load16_def store16_def le_decode_encode)

lemma load32_store32 [mem_simps]: "load32 (store32 a v m) a = v"
  using load_store_bytes [of "le_encode 4 v" a m]
  by (simp add: load32_def store32_def le_decode_encode)

lemma load64_store64 [mem_simps]: "load64 (store64 a v m) a = v"
  using load_store_bytes [of "le_encode 8 v" a m]
  by (simp add: load64_def store64_def le_decode_encode)

lemma load32_store32_other: "span b 4 \<inter> span a 4 = {} \<Longrightarrow> load32 (store32 a v m) b = load32 m b"
  by (rule load32_cong) (auto intro!: store32_other)

lemma load32_store64_other: "span b 4 \<inter> span a 8 = {} \<Longrightarrow> load32 (store64 a v m) b = load32 m b"
  by (rule load32_cong) (auto intro!: store64_other)

lemma load64_store32_other: "span b 8 \<inter> span a 4 = {} \<Longrightarrow> load64 (store32 a v m) b = load64 m b"
  by (rule load64_cong) (auto intro!: store32_other)

lemma load64_store64_other: "span b 8 \<inter> span a 8 = {} \<Longrightarrow> load64 (store64 a v m) b = load64 m b"
  by (rule load64_cong) (auto intro!: store64_other)

subsection \<open>memset, memcpy, memcmp\<close>

function memset_loop :: "ptr \<Rightarrow> u8 \<Rightarrow> u64 \<Rightarrow> u64 \<Rightarrow> memory \<Rightarrow> memory" where
  "memset_loop p v num i m =
     (if i < num then memset_loop p v num (i + 1) (m(p + i := v)) else m)"
  by pat_completeness auto
termination
  by (relation "measure (\<lambda>(p, v, num, i, m). unat num - unat i)") (simp_all add: inc_measure)

declare memset_loop.simps [simp del]

definition memset :: "ptr \<Rightarrow> u32 \<Rightarrow> u64 \<Rightarrow> memory \<Rightarrow> memory" where
  "memset p value num m = memset_loop p (ucast value) num 0 m"

function memcpy_loop :: "ptr \<Rightarrow> ptr \<Rightarrow> u64 \<Rightarrow> u64 \<Rightarrow> memory \<Rightarrow> memory" where
  "memcpy_loop d s n i m =
     (if i < n then memcpy_loop d s n (i + 1) (m(d + i := m (s + i))) else m)"
  by pat_completeness auto
termination
  by (relation "measure (\<lambda>(d, s, n, i, m). unat n - unat i)") (simp_all add: inc_measure)

declare memcpy_loop.simps [simp del]

definition memcpy :: "ptr \<Rightarrow> ptr \<Rightarrow> u64 \<Rightarrow> memory \<Rightarrow> memory" where
  "memcpy dst src n m = memcpy_loop dst src n 0 m"

function memcmp_loop :: "memory \<Rightarrow> ptr \<Rightarrow> ptr \<Rightarrow> u64 \<Rightarrow> u64 \<Rightarrow> int" where
  "memcmp_loop m s1 s2 n i =
     (if i < n
      then if m (s1 + i) \<noteq> m (s2 + i) then uint (m (s1 + i)) - uint (m (s2 + i))
           else memcmp_loop m s1 s2 n (i + 1)
      else 0)"
  by pat_completeness auto
termination
  by (relation "measure (\<lambda>(m, s1, s2, n, i). unat n - unat i)") (simp_all add: inc_measure)

declare memcmp_loop.simps [simp del]

definition memcmp :: "memory \<Rightarrow> ptr \<Rightarrow> ptr \<Rightarrow> u64 \<Rightarrow> int" where
  "memcmp m s1 s2 n = memcmp_loop m s1 s2 n 0"

text \<open>The counter \<open>i\<close> has not reached the offset of \<open>x\<close> exactly when \<open>x\<close> is still to be written.\<close>

lemma offset_eq_iff: "x = p + i \<longleftrightarrow> unat (x - p) = unat i" for x p i :: u64
  by (metis add.commute add_diff_cancel_right' diff_add_cancel unsigned_word_eqI)

lemma memset_loop_apply:
  "memset_loop p v num i m x =
     (if unat i \<le> unat (x - p) \<and> unat (x - p) < unat num then v else m x)"
proof (induction p v num i m rule: memset_loop.induct)
  case (1 p v num i m)
  show ?case
  proof (cases "i < num")
    case True
    then have lt: "unat i < unat num" by (simp add: word_less_nat_alt)
    have "memset_loop p v num i m x = memset_loop p v num (i + 1) (m(p + i := v)) x"
      using True by (simp add: memset_loop.simps [of p v num i m])
    also have "\<dots> = (if unat (i + 1) \<le> unat (x - p) \<and> unat (x - p) < unat num
        then v else (m(p + i := v)) x)"
      using True by (rule "1.IH")
    finally show ?thesis
      using True lt offset_eq_iff [of x p i]
      by (cases "x = p + i") (auto simp: unat_inc_less)
  next
    case False
    then show ?thesis
      by (auto simp: memset_loop.simps [of p v num i m] word_less_nat_alt)
  qed
qed

lemma memset_apply [mem_simps]:
  "memset p value num m x = (if x \<in> span p (unat num) then ucast value else m x)"
  by (simp add: memset_def memset_loop_apply span_def)

lemma memcpy_loop_apply:
  assumes "span d (unat n) \<inter> span s (unat n) = {}"
  shows "memcpy_loop d s n i m x =
     (if unat i \<le> unat (x - d) \<and> unat (x - d) < unat n then m (s + (x - d)) else m x)"
  using assms
proof (induction d s n i m rule: memcpy_loop.induct)
  case (1 d s n i m)
  show ?case
  proof (cases "i < n")
    case True
    then have lt: "unat i < unat n" by (simp add: word_less_nat_alt)
    let ?m = "m(d + i := m (s + i))"
    have src: "?m (s + (x - d)) = m (s + (x - d))" if "unat (x - d) < unat n"
    proof -
      have "d + i \<in> span d (unat n)" using lt by (simp only: span_offset)
      moreover have "s + (x - d) \<in> span s (unat n)" using that by (simp only: span_offset)
      ultimately have "s + (x - d) \<noteq> d + i" using 1(2) by (metis span_disjointD)
      then show ?thesis by (rule fun_upd_other)
    qed
    have "memcpy_loop d s n i m x = memcpy_loop d s n (i + 1) ?m x"
      using True by (simp add: memcpy_loop.simps [of d s n i m])
    also have "\<dots> = (if unat (i + 1) \<le> unat (x - d) \<and> unat (x - d) < unat n
        then ?m (s + (x - d)) else ?m x)"
      using True 1(2) by (rule "1.IH")
    also have "\<dots> = (if Suc (unat i) \<le> unat (x - d) \<and> unat (x - d) < unat n
        then m (s + (x - d)) else ?m x)"
      unfolding unat_inc_less [OF True] using src by argo
    also have "\<dots> = (if unat i \<le> unat (x - d) \<and> unat (x - d) < unat n
        then m (s + (x - d)) else m x)"
    proof (cases "x = d + i")
      case True
      with lt show ?thesis by simp
    next
      case False
      then have "unat i \<noteq> unat (x - d)" using offset_eq_iff [of x d i] by simp
      with False show ?thesis by auto
    qed
    finally show ?thesis .
  next
    case False
    then show ?thesis
      by (auto simp: memcpy_loop.simps [of d s n i m] word_less_nat_alt)
  qed
qed

lemma memcpy_apply:
  assumes "span d (unat n) \<inter> span s (unat n) = {}"
  shows "memcpy d s n m x = (if x \<in> span d (unat n) then m (s + (x - d)) else m x)"
  using memcpy_loop_apply [OF assms] by (simp add: memcpy_def span_def)

lemma memcpy_outside: "x \<notin> span d (unat n) \<Longrightarrow> memcpy d s n m x = m x"
proof -
  assume out: "x \<notin> span d (unat n)"
  have "memcpy_loop d s n i m x = m x" for i
    using out
  proof (induction d s n i m rule: memcpy_loop.induct)
    case (1 d s n i m)
    have "i < n \<Longrightarrow> x \<noteq> d + i"
      using 1(2) by (auto simp: span_def word_less_nat_alt)
    then have "i < n \<Longrightarrow> memcpy_loop d s n (i + 1) (m(d + i := m (s + i))) x = m x"
      using "1.IH" [OF _ 1(2)] by (metis fun_upd_other)
    then show ?case by (simp add: memcpy_loop.simps [of d s n i m])
  qed
  then show ?thesis by (simp add: memcpy_def)
qed

lemma load_bytes_memcpy:
  assumes "span d (unat n) \<inter> span s (unat n) = {}"
  shows "load_bytes (memcpy d s n m) d (unat n) = load_bytes m s (unat n)"
proof (rule nth_equalityI)
  fix i assume "i < length (load_bytes (memcpy d s n m) d (unat n))"
  then have i: "i < unat n" by simp
  then have "i < 18446744073709551616" using unat_lt_u64 [of n] by linarith
  with i have "d + of_nat i \<in> span d (unat n)" by (simp add: unat_of_nat_u64)
  with i show "load_bytes (memcpy d s n m) d (unat n) ! i = load_bytes m s (unat n) ! i"
    by (simp add: nth_load_bytes memcpy_apply [OF assms])
qed simp

lemma memcmp_loop_zero:
  "memcmp_loop m a b n i = 0 \<longleftrightarrow> (\<forall>j. unat i \<le> unat j \<and> j < n \<longrightarrow> m (a + j) = m (b + j))"
proof (induction m a b n i rule: memcmp_loop.induct)
  case (1 m a b n i)
  show ?case
  proof (cases "i < n")
    case True
    show ?thesis
    proof (cases "m (a + i) = m (b + i)")
      case eq: True
      have "memcmp_loop m a b n i = memcmp_loop m a b n (i + 1)"
        using True eq by (simp add: memcmp_loop.simps [of m a b n i])
      moreover have "unat i \<le> unat j \<longleftrightarrow> j = i \<or> unat (i + 1) \<le> unat j" for j
        using unat_inc_less [OF True] by (auto simp: le_less word_unat_eq_iff Suc_le_eq)
      ultimately show ?thesis using 1 True eq by metis
    next
      case False
      then have "uint (m (a + i)) \<noteq> uint (m (b + i))" by (simp add: word_uint_eq_iff)
      with False True show ?thesis
        by (auto simp: memcmp_loop.simps [of m a b n i])
    qed
  next
    case False
    have "\<not> j < n" if "unat i \<le> unat j" for j
      using that False by (simp add: word_less_nat_alt)
    with False show ?thesis by (auto simp: memcmp_loop.simps [of m a b n i])
  qed
qed

lemma memcmp_eq_0_iff:
  "memcmp m a b n = 0 \<longleftrightarrow> load_bytes m a (unat n) = load_bytes m b (unat n)"
proof -
  have "memcmp m a b n = 0 \<longleftrightarrow> (\<forall>j. j < n \<longrightarrow> m (a + j) = m (b + j))"
    by (simp add: memcmp_def memcmp_loop_zero)
  also have "\<dots> \<longleftrightarrow> (\<forall>i < unat n. m (a + of_nat i) = m (b + of_nat i))"
  proof safe
    fix i assume *: "\<forall>j. j < n \<longrightarrow> m (a + j) = m (b + j)" and i: "i < unat n"
    then have "i < 18446744073709551616" using unat_lt_u64 [of n] by linarith
    with i have "of_nat i < n" by (simp add: word_less_nat_alt unat_of_nat_u64)
    with * show "m (a + of_nat i) = m (b + of_nat i)" by blast
  next
    fix j assume *: "\<forall>i<unat n. m (a + of_nat i) = m (b + of_nat i)" and "j < n"
    then have "m (a + of_nat (unat j)) = m (b + of_nat (unat j))"
      by (simp only: word_less_nat_alt)
    then show "m (a + j) = m (b + j)" by simp
  qed
  also have "\<dots> \<longleftrightarrow> load_bytes m a (unat n) = load_bytes m b (unat n)"
    by (simp add: list_eq_iff_nth_eq nth_load_bytes)
  finally show ?thesis .
qed

subsection \<open>Strings\<close>

partial_function (option) strcmp :: "memory \<Rightarrow> ptr \<Rightarrow> ptr \<Rightarrow> int option" where
  "strcmp m a b =
     (if m a \<noteq> 0 \<and> m a = m b then strcmp m (a + 1) (b + 1)
      else Some (uint (m a) - uint (m b)))"

function strncmp_loop :: "memory \<Rightarrow> ptr \<Rightarrow> ptr \<Rightarrow> u64 \<Rightarrow> u64 \<Rightarrow> int" where
  "strncmp_loop m a b n i =
     (if i < n
      then if m (a + i) \<noteq> m (b + i) \<or> m (a + i) = 0
           then uint (m (a + i)) - uint (m (b + i))
           else strncmp_loop m a b n (i + 1)
      else 0)"
  by pat_completeness auto
termination
  by (relation "measure (\<lambda>(m, a, b, n, i). unat n - unat i)") (simp_all add: inc_measure)

declare strncmp_loop.simps [simp del]

definition strncmp :: "memory \<Rightarrow> ptr \<Rightarrow> ptr \<Rightarrow> u64 \<Rightarrow> int" where
  "strncmp m a b n = strncmp_loop m a b n 0"

text \<open>\<open>long\<close> is kept at its 64 bits; the digits test compares \<open>char\<close> values, which are signed.\<close>

partial_function (option) strtol_loop :: "memory \<Rightarrow> ptr \<Rightarrow> u64 \<Rightarrow> u64 option" where
  "strtol_loop m nptr val =
     (if 48 \<le> sint (m nptr) \<and> sint (m nptr) \<le> 57
      then strtol_loop m (nptr + 1) (val * 10 + (scast (m nptr) - 48))
      else Some val)"

definition strtol :: "memory \<Rightarrow> ptr \<Rightarrow> u64 option" where
  "strtol m nptr = strtol_loop m nptr 0"

definition abs_int :: "u32 \<Rightarrow> u32" where
  "abs_int x = (if sint x < 0 then - x else x)"

text \<open>
  \<open>cstr m a cs\<close>: the bytes \<open>cs\<close>, none of them 0, stand at \<open>a\<close> and a 0 byte follows.
\<close>

primrec cstr :: "memory \<Rightarrow> ptr \<Rightarrow> u8 list \<Rightarrow> bool" where
  "cstr m a [] \<longleftrightarrow> m a = 0"
| "cstr m a (c # cs) \<longleftrightarrow> m a = c \<and> c \<noteq> 0 \<and> cstr m (a + 1) cs"

text \<open>The order the C standard gives the strings: the first difference, the end counting as 0.\<close>

fun cstr_diff :: "u8 list \<Rightarrow> u8 list \<Rightarrow> int" where
  "cstr_diff [] [] = 0"
| "cstr_diff (x # xs) [] = uint x"
| "cstr_diff [] (y # ys) = - uint y"
| "cstr_diff (x # xs) (y # ys) = (if x = y then cstr_diff xs ys else uint x - uint y)"

lemma strcmp_cstr: "cstr m a xs \<Longrightarrow> cstr m b ys \<Longrightarrow> strcmp m a b = Some (cstr_diff xs ys)"
proof (induction xs ys arbitrary: a b rule: cstr_diff.induct)
  case (4 x xs y ys)
  then show ?case by (subst strcmp.simps) auto
qed (simp_all add: strcmp.simps)

lemma cstr_diff_0: "0 \<notin> set xs \<Longrightarrow> 0 \<notin> set ys \<Longrightarrow> cstr_diff xs ys = 0 \<longleftrightarrow> xs = ys"
  by (induction xs ys rule: cstr_diff.induct) (auto simp: uint_0_iff dest: unsigned_word_eqI)

lemma cstr_no_zero: "cstr m a xs \<Longrightarrow> 0 \<notin> set xs"
  by (induction xs arbitrary: a) auto

end
