(* ===== verification/Machine.thy ===== *)
theory Machine
  imports Byte_Memory
begin

text \<open>
  The part of the machine state that every kernel component works on: the byte
  memory, the bytes sent to the serial console and the flags register. Later
  components extend this record with their own static variables, so that one
  operation can be used on every larger state. Serial output
  (\<open>Kernel/Kernel_Main.c\<close>) is recorded as the characters written to the
  console; the interrupt flag and the spin locks are those of
  \<open>Kernel/Memory/Memory_Main.c\<close>.
\<close>

record machine =
  mem :: memory
  serial_out :: string
  rflags :: u64

subsection \<open>Serial console\<close>

definition serial_write_char :: "char \<Rightarrow> 'a machine_scheme \<Rightarrow> 'a machine_scheme" where
  "serial_write_char c s = s\<lparr>serial_out := serial_out s @ [c]\<rparr>"

primrec serial_write_string :: "string \<Rightarrow> 'a machine_scheme \<Rightarrow> 'a machine_scheme" where
  "serial_write_string [] s = s"
| "serial_write_string (c # cs) s =
     serial_write_string cs
       (serial_write_char c (if c = CHR 0x0A then serial_write_char (CHR 0x0D) s else s))"

definition hex_digits :: string where
  "hex_digits = ''0123456789ABCDEF''"

function serial_hex_loop :: "u64 \<Rightarrow> int \<Rightarrow> 'a machine_scheme \<Rightarrow> 'a machine_scheme" where
  "serial_hex_loop value i s =
     (if 0 \<le> i
      then serial_hex_loop value (i - 4)
        (serial_write_char (hex_digits ! unat (drop_bit (nat i) value AND 0xF)) s)
      else s)"
  by pat_completeness auto
termination
  by (relation "measure (\<lambda>(value, i, s). nat (i + 4))") auto

declare serial_hex_loop.simps [simp del]

definition serial_write_uint64 :: "u64 \<Rightarrow> 'a machine_scheme \<Rightarrow> 'a machine_scheme" where
  "serial_write_uint64 value s = serial_hex_loop value 60 (serial_write_string ''0x'' s)"

definition serial_write_uint32 :: "u32 \<Rightarrow> 'a machine_scheme \<Rightarrow> 'a machine_scheme" where
  "serial_write_uint32 value s = serial_write_uint64 (ucast value) s"

definition serial_write_uint16 :: "u16 \<Rightarrow> 'a machine_scheme \<Rightarrow> 'a machine_scheme" where
  "serial_write_uint16 value s = serial_write_uint64 (ucast value) s"

text \<open>A message of the kernel ends in a line feed.\<close>

abbreviation msg :: "string \<Rightarrow> 'a machine_scheme \<Rightarrow> 'a machine_scheme" where
  "msg str s \<equiv> serial_write_string (str @ [CHR 0x0A]) s"

fun crlf :: "string \<Rightarrow> string" where
  "crlf [] = []"
| "crlf (c # cs) = (if c = CHR 0x0A then CHR 0x0D # c # crlf cs else c # crlf cs)"

lemma serial_write_string_eq [frame_simps]:
  "serial_write_string str s = s\<lparr>serial_out := serial_out s @ crlf str\<rparr>"
  by (induction str arbitrary: s) (simp_all add: serial_write_char_def)

declare crlf.simps [simp del] serial_write_string.simps [simp del]

definition hex_string :: "u64 \<Rightarrow> string" where
  "hex_string value =
     map (\<lambda>k. hex_digits ! unat (drop_bit (60 - 4 * k) value AND 0xF)) [0..<16]"

lemma serial_write_uint64_eq [frame_simps]:
  "serial_write_uint64 value s = s\<lparr>serial_out := serial_out s @ ''0x'' @ hex_string value\<rparr>"
proof -
  have "serial_hex_loop value 60 s' =
      s'\<lparr>serial_out := serial_out s' @ hex_string value\<rparr>" for s' :: "'a machine_scheme"
    by (simp add: serial_hex_loop.simps serial_write_char_def hex_string_def upt_rec)
  then show ?thesis
    by (simp add: serial_write_uint64_def serial_write_string_eq crlf.simps)
qed

lemmas serial_simps = serial_write_string_eq serial_write_uint64_eq
  serial_write_uint32_def serial_write_uint16_def

subsection \<open>Interrupt flag and spin locks\<close>

definition irq_save_disable :: "'a machine_scheme \<Rightarrow> u64 \<times> 'a machine_scheme" where
  "irq_save_disable s = (rflags s, s\<lparr>rflags := rflags s AND NOT (push_bit 9 1)\<rparr>)"

definition irq_restore :: "u64 \<Rightarrow> 'a machine_scheme \<Rightarrow> 'a machine_scheme" where
  "irq_restore flags s =
     (if flags AND push_bit 9 1 \<noteq> 0 then s\<lparr>rflags := rflags s OR push_bit 9 1\<rparr> else s)"

text \<open>
  A spin lock on the one processor, entered with interrupts off: the
  test-and-set loop leaves at once when the lock is free, and otherwise never
  returns, which is \<open>None\<close>.
\<close>

definition spin_lock :: "u32 \<Rightarrow> u32 option" where
  "spin_lock lck = (if lck \<noteq> 0 then None else Some 1)"

definition spin_unlock :: "u32 \<Rightarrow> u32" where
  "spin_unlock lck = 0"

lemma spin_lock_free [simp]: "spin_lock 0 = Some 1"
  by (simp add: spin_lock_def)

lemma rflags_restored:
  "(if f AND push_bit 9 1 \<noteq> 0 then (f AND NOT (push_bit 9 1)) OR push_bit 9 1
    else f AND NOT (push_bit 9 1)) = (f :: u64)"
proof -
  have b: "f AND push_bit 9 1 \<noteq> 0 \<longleftrightarrow> bit f 9"
    by (simp only: push_bit_of_1 and_exp_eq_0_iff_not_bit not_not)
  have p: "bit (push_bit 9 1 :: u64) n \<longleftrightarrow> n = 9" for n
    by (simp only: push_bit_of_1 bit_exp_iff) auto
  show ?thesis
    unfolding b by (rule bit_word_eqI)
      (cases "bit f 9", auto simp only: p bit_or_iff bit_and_iff bit_not_iff if_True if_False
        possible_bit_word)
qed

lemma irq_restore_saved [simp]:
  "rflags t = f AND NOT (push_bit 9 1) \<Longrightarrow> irq_restore f t = t\<lparr>rflags := f\<rparr>"
  using rflags_restored [of f] by (simp only: irq_restore_def split: if_splits) simp_all

end
