(* ===== verification/Heap_Allocator.thy ===== *)
theory Heap_Allocator
  imports Machine
begin

text \<open>
  The kernel heap of \<open>Kernel/Memory/Memory_Main.c\<close>: a singly linked list of blocks
  in memory, searched next-fit from a hint, split on allocation and coalesced on
  release. The record holds all static variables of the file; the page bitmap
  fields are used by the page allocator. Block headers are read and written in the
  byte memory at the offsets the compiler gives the fields of
  \<open>memory_block_t\<close>: \<open>size\<close> at 0, \<open>is_free\<close> at 4, \<open>next\<close> at 8, 16 bytes in all.
\<close>

record memory_state = machine +
  heap_start :: ptr
  heap_search_hint :: ptr
  heap_initialized :: u32
  total_allocated :: u32
  total_freed :: u32
  heap_start_page :: u32
  heap_lock :: u32
  page_bitmap :: "nat \<Rightarrow> u8"
  page_lock :: u32
  page_alloc_hint :: u32

subsection \<open>Block headers\<close>

definition sizeof_memory_block :: u64 where
  "sizeof_memory_block = 16"

definition blk_size :: "memory \<Rightarrow> ptr \<Rightarrow> u32" where
  "blk_size m b = load32 m b"

definition blk_is_free :: "memory \<Rightarrow> ptr \<Rightarrow> u32" where
  "blk_is_free m b = load32 m (b + 4)"

definition blk_next :: "memory \<Rightarrow> ptr \<Rightarrow> ptr" where
  "blk_next m b = load64 m (b + 8)"

definition set_size :: "ptr \<Rightarrow> u32 \<Rightarrow> memory \<Rightarrow> memory" where
  "set_size b v m = store32 b v m"

definition set_is_free :: "ptr \<Rightarrow> u32 \<Rightarrow> memory \<Rightarrow> memory" where
  "set_is_free b v m = store32 (b + 4) v m"

definition set_next :: "ptr \<Rightarrow> ptr \<Rightarrow> memory \<Rightarrow> memory" where
  "set_next b v m = store64 (b + 8) v m"

definition MIN_ALLOC_ALIGN :: u32 where "MIN_ALLOC_ALIGN = 8"

definition MIN_SPLIT_REMAINDER :: u32 where "MIN_SPLIT_REMAINDER = 64"

definition PAGE_SIZE :: u64 where "PAGE_SIZE = 4096"

definition HEAP_PAGE_COUNT :: u64 where "HEAP_PAGE_COUNT = 4096"

definition align_up :: "u32 \<Rightarrow> u32 \<Rightarrow> u32" where
  "align_up value algn = (value + algn - 1) AND NOT (algn - 1)"

subsection \<open>Searching and splitting\<close>

text \<open>
  The result is the block and its predecessor, or \<open>NULL\<close> and the predecessor the
  caller started with. \<open>None\<close> is the walk along a cyclic list, which never ends.
\<close>

partial_function (option) find_block_loop ::
  "memory \<Rightarrow> ptr \<Rightarrow> ptr \<Rightarrow> ptr \<Rightarrow> ptr \<Rightarrow> (ptr \<times> ptr) option" where
  "find_block_loop m target prev_out prev current =
     (if current = NULL then Some (NULL, prev_out)
      else if current + sizeof_memory_block = target then Some (current, prev)
      else find_block_loop m target prev_out current (blk_next m current))"

definition find_block_by_payload :: "ptr \<Rightarrow> 'a memory_state_scheme \<Rightarrow> (ptr \<times> ptr) option" where
  "find_block_by_payload p s = find_block_loop (mem s) p NULL NULL (heap_start s)"

definition split_block_if_needed :: "ptr \<Rightarrow> u32 \<Rightarrow> memory \<Rightarrow> memory" where
  "split_block_if_needed block sz m =
     (if ucast (blk_size m block) \<ge>
         (ucast sz :: u64) + sizeof_memory_block + ucast MIN_SPLIT_REMAINDER
      then let new_block = block + sizeof_memory_block + ucast sz;
               m = set_size new_block
                     (ucast (ucast (blk_size m block) - (ucast sz :: u64) - sizeof_memory_block)) m;
               m = set_is_free new_block 1 m;
               m = set_next new_block (blk_next m block) m;
               m = set_size block sz m
           in set_next block new_block m
      else m)"

partial_function (option) kmalloc_search ::
  "memory \<Rightarrow> ptr \<Rightarrow> ptr \<Rightarrow> u32 \<Rightarrow> ptr \<Rightarrow> bool \<Rightarrow> ptr option" where
  "kmalloc_search m hstart start sz current wrapped =
     (if current = NULL then Some NULL
      else if blk_is_free m current \<noteq> 0 \<and> blk_size m current \<ge> sz then Some current
      else let nxt = blk_next m current;
               (current', wrapped') =
                 (if nxt = NULL \<and> \<not> wrapped then (hstart, True) else (nxt, wrapped))
           in if wrapped' \<and> current' = start then Some NULL
              else kmalloc_search m hstart start sz current' wrapped')"

definition kmalloc_locked ::
  "u32 \<Rightarrow> 'a memory_state_scheme \<Rightarrow> (ptr \<times> 'a memory_state_scheme) option" where
  "kmalloc_locked sz s = do {
     let s = (if heap_search_hint s = NULL then s\<lparr>heap_search_hint := heap_start s\<rparr> else s);
     let start = heap_search_hint s;
     current \<leftarrow> kmalloc_search (mem s) (heap_start s) start sz start False;
     if current = NULL then Some (NULL, s)
     else do {
       let s = s\<lparr>mem := split_block_if_needed current sz (mem s)\<rparr>;
       let s = s\<lparr>mem := set_is_free current 0 (mem s)\<rparr>;
       let s = s\<lparr>total_allocated := total_allocated s + blk_size (mem s) current\<rparr>;
       let s = s\<lparr>heap_search_hint :=
                  (if blk_next (mem s) current \<noteq> NULL then blk_next (mem s) current
                   else heap_start s)\<rparr>;
       Some (current + sizeof_memory_block, s)
     }
   }"

subsection \<open>Initialisation\<close>

text \<open>\<open>ke\<close> is the address of the linker symbol \<open>_kernel_end\<close>.\<close>

definition calc_heap_start_page ::
  "u64 \<Rightarrow> 'a memory_state_scheme \<Rightarrow> u32 \<times> 'a memory_state_scheme" where
  "calc_heap_start_page ke s =
     (if heap_start_page s \<noteq> 0 then (heap_start_page s, s)
      else let page = ucast ((ke + PAGE_SIZE - 1) div PAGE_SIZE)
           in (page, s\<lparr>heap_start_page := page\<rparr>))"

definition memory_init :: "u64 \<Rightarrow> 'a memory_state_scheme \<Rightarrow> 'a memory_state_scheme" where
  "memory_init ke s =
     (if heap_initialized s \<noteq> 0 then msg ''[OS] [Memory] Heap already initialized'' s
      else
        let (start_page, s) = calc_heap_start_page ke s;
            s = s\<lparr>heap_start := ucast start_page * PAGE_SIZE\<rparr>;
            s = s\<lparr>mem := set_size (heap_start s)
                   (ucast (HEAP_PAGE_COUNT * PAGE_SIZE - sizeof_memory_block)) (mem s)\<rparr>;
            s = s\<lparr>mem := set_is_free (heap_start s) 1 (mem s)\<rparr>;
            s = s\<lparr>mem := set_next (heap_start s) NULL (mem s)\<rparr>;
            s = s\<lparr>heap_search_hint := heap_start s, heap_initialized := 1,
                   total_allocated := 0, total_freed := 0, page_alloc_hint := 0\<rparr>;
            s = serial_write_string ''[OS] [Memory] Heap initialized at '' s;
            s = serial_write_uint64 (heap_start s) s;
            s = serial_write_string '' with size '' s;
            s = serial_write_uint32 (blk_size (mem s) (heap_start s)) s
        in msg '' bytes'' s)"

subsection \<open>Allocation and release\<close>

definition lock_heap :: "'a memory_state_scheme \<Rightarrow> 'a memory_state_scheme option" where
  "lock_heap s = do {
     l \<leftarrow> spin_lock (heap_lock s);
     Some (s\<lparr>heap_lock := l\<rparr>)
   }"

definition unlock_heap :: "'a memory_state_scheme \<Rightarrow> 'a memory_state_scheme" where
  "unlock_heap s = s\<lparr>heap_lock := spin_unlock (heap_lock s)\<rparr>"

definition kmalloc ::
  "u32 \<Rightarrow> 'a memory_state_scheme \<Rightarrow> (ptr \<times> 'a memory_state_scheme) option" where
  "kmalloc sz s =
     (if heap_initialized s = 0
      then Some (NULL, msg ''[OS] [Memory] kmalloc called before heap init!'' s)
      else if sz = 0 then Some (NULL, s)
      else do {
        let sz = align_up sz MIN_ALLOC_ALIGN;
        let (irq_flags, s) = irq_save_disable s;
        s \<leftarrow> lock_heap s;
        (p, s) \<leftarrow> kmalloc_locked sz s;
        let s = irq_restore irq_flags (unlock_heap s);
        if p \<noteq> NULL then Some (p, s)
        else do {
          let s = serial_write_string ''[OS] [Memory] kmalloc: Out of memory (requested '' s;
          let s = serial_write_uint32 sz s;
          Some (NULL, msg '' bytes)'' s)
        }
      })"

text \<open>
  \<open>b->size += sizeof(memory_block_t) + c->size; b->next = c->next\<close>, the step that
  \<open>kfree\<close> and \<open>krealloc\<close> take to merge block \<open>c\<close> into the block \<open>b\<close> before it. The sum
  is computed in 64 bits and stored in 32.
\<close>

definition absorb_block :: "ptr \<Rightarrow> ptr \<Rightarrow> memory \<Rightarrow> memory" where
  "absorb_block b c m =
     (let m = set_size b
            (ucast ((ucast (blk_size m b) :: u64) + (sizeof_memory_block + ucast (blk_size m c)))) m
      in set_next b (blk_next m c) m)"

definition kfree :: "ptr \<Rightarrow> 'a memory_state_scheme \<Rightarrow> 'a memory_state_scheme option" where
  "kfree p s =
     (if p = NULL then Some s
      else if heap_initialized s = 0 \<or> heap_start s = NULL
      then Some (msg ''[OS] [Memory] kfree: Heap not initialized'' s)
      else if p < heap_start s + sizeof_memory_block \<or>
              p \<ge> heap_start s + HEAP_PAGE_COUNT * PAGE_SIZE
      then Some (msg ''[OS] [Memory] kfree: Invalid pointer'' s)
      else do {
        let (irq_flags, s) = irq_save_disable s;
        s \<leftarrow> lock_heap s;
        (block, prev) \<leftarrow> find_block_by_payload p s;
        if block = NULL
        then Some (msg ''[OS] [Memory] kfree: Pointer not tracked''
               (irq_restore irq_flags (unlock_heap s)))
        else if blk_is_free (mem s) block \<noteq> 0
        then Some (msg ''[OS] [Memory] kfree: Double free detected''
               (irq_restore irq_flags (unlock_heap s)))
        else do {
          let s = s\<lparr>mem := set_is_free block 1 (mem s)\<rparr>;
          let s = s\<lparr>total_freed := total_freed s + blk_size (mem s) block\<rparr>;
          let nxt = blk_next (mem s) block;
          let s = (if nxt \<noteq> NULL \<and> blk_is_free (mem s) nxt \<noteq> 0
                   then s\<lparr>mem := absorb_block block nxt (mem s)\<rparr> else s);
          let (block, s) =
            (if prev \<noteq> NULL \<and> blk_is_free (mem s) prev \<noteq> 0
             then (prev, s\<lparr>mem := absorb_block prev block (mem s)\<rparr>)
             else (block, s));
          let s = s\<lparr>heap_search_hint := block\<rparr>;
          Some (irq_restore irq_flags (unlock_heap s))
        }
      })"

definition kcalloc ::
  "u32 \<Rightarrow> u32 \<Rightarrow> 'a memory_state_scheme \<Rightarrow> (ptr \<times> 'a memory_state_scheme) option" where
  "kcalloc num sz s =
     (if num \<noteq> 0 \<and> sz > 0xFFFFFFFF div num
      then Some (NULL, msg ''[OS] [Memory] kcalloc: Size overflow'' s)
      else do {
        let total_size = num * sz;
        (p, s) \<leftarrow> kmalloc total_size s;
        if p \<noteq> NULL then Some (p, s\<lparr>mem := memset_loop p 0 (ucast total_size) 0 (mem s)\<rparr>)
        else Some (p, s)
      })"

definition krealloc ::
  "ptr \<Rightarrow> u32 \<Rightarrow> 'a memory_state_scheme \<Rightarrow> (ptr \<times> 'a memory_state_scheme) option" where
  "krealloc p new_size s =
     (if p = NULL then kmalloc new_size s
      else if new_size = 0 then do { s \<leftarrow> kfree p s; Some (NULL, s) }
      else do {
        let new_size = align_up new_size MIN_ALLOC_ALIGN;
        let (irq_flags, s) = irq_save_disable s;
        s \<leftarrow> lock_heap s;
        (block, _) \<leftarrow> find_block_by_payload p s;
        if block = NULL \<or> blk_is_free (mem s) block \<noteq> 0
        then Some (NULL, msg ''[OS] [Memory] krealloc: Invalid pointer''
                           (irq_restore irq_flags (unlock_heap s)))
        else do {
          let old_size = blk_size (mem s) block;
          if new_size \<le> old_size
          then do {
            let s = s\<lparr>mem := split_block_if_needed block new_size (mem s)\<rparr>;
            Some (p, irq_restore irq_flags (unlock_heap s))
          }
          else do {
            let nxt = blk_next (mem s) block;
            if nxt \<noteq> NULL \<and> blk_is_free (mem s) nxt \<noteq> 0 \<and>
               (ucast (blk_size (mem s) block) :: u64) + sizeof_memory_block
                 + ucast (blk_size (mem s) nxt) \<ge> ucast new_size
            then do {
              let s = s\<lparr>mem := absorb_block block nxt (mem s)\<rparr>;
              let s = s\<lparr>mem := split_block_if_needed block new_size (mem s)\<rparr>;
              Some (p, irq_restore irq_flags (unlock_heap s))
            }
            else do {
              let s = irq_restore irq_flags (unlock_heap s);
              (new_ptr, s) \<leftarrow> kmalloc new_size s;
              if new_ptr = NULL then Some (NULL, s)
              else do {
                let s = s\<lparr>mem := memcpy_loop new_ptr p (ucast old_size) 0 (mem s)\<rparr>;
                s \<leftarrow> kfree p s;
                Some (new_ptr, s)
              }
            }
          }
        }
      })"

text \<open>The wrappers of \<open>Kernel/Memory/Other_Utils.c\<close>.\<close>

definition malloc ::
  "u64 \<Rightarrow> 'a memory_state_scheme \<Rightarrow> (ptr \<times> 'a memory_state_scheme) option" where
  "malloc sz s = (if sz > 0xFFFFFFFF then Some (NULL, s) else kmalloc (ucast sz) s)"

definition free :: "ptr \<Rightarrow> 'a memory_state_scheme \<Rightarrow> 'a memory_state_scheme option" where
  "free p s = kfree p s"

subsection \<open>Statistics\<close>

partial_function (option) free_memory_loop :: "memory \<Rightarrow> u32 \<Rightarrow> ptr \<Rightarrow> u32 option" where
  "free_memory_loop m free_memory current =
     (if current = NULL then Some free_memory
      else free_memory_loop m
             (if blk_is_free m current \<noteq> 0 then free_memory + blk_size m current else free_memory)
             (blk_next m current))"

definition get_free_memory ::
  "'a memory_state_scheme \<Rightarrow> (u32 \<times> 'a memory_state_scheme) option" where
  "get_free_memory s =
     (if heap_initialized s = 0 then Some (0, s)
      else do {
        let (irq_flags, s) = irq_save_disable s;
        s \<leftarrow> lock_heap s;
        free_memory \<leftarrow> free_memory_loop (mem s) 0 (heap_start s);
        Some (free_memory, irq_restore irq_flags (unlock_heap s))
      })"

definition get_used_memory ::
  "'a memory_state_scheme \<Rightarrow> (u32 \<times> 'a memory_state_scheme) option" where
  "get_used_memory s = do {
     let (irq_flags, s) = irq_save_disable s;
     s \<leftarrow> lock_heap s;
     let used = total_allocated s - total_freed s;
     Some (used, irq_restore irq_flags (unlock_heap s))
   }"

partial_function (option) debug_count_loop ::
  "memory \<Rightarrow> u32 \<Rightarrow> u32 \<Rightarrow> u32 \<Rightarrow> ptr \<Rightarrow> (u32 \<times> u32 \<times> u32) option" where
  "debug_count_loop m block_count free_blocks used_blocks current =
     (if current = NULL then Some (block_count, free_blocks, used_blocks)
      else if blk_is_free m current \<noteq> 0
      then debug_count_loop m (block_count + 1) (free_blocks + 1) used_blocks (blk_next m current)
      else debug_count_loop m (block_count + 1) free_blocks (used_blocks + 1) (blk_next m current))"

definition debug_print_memory_info ::
  "'a memory_state_scheme \<Rightarrow> 'a memory_state_scheme option" where
  "debug_print_memory_info s =
     (if heap_initialized s = 0 then Some (msg ''[OS] [Memory] Heap not initialized'' s)
      else do {
        let (irq_flags, s) = irq_save_disable s;
        s \<leftarrow> lock_heap s;
        (block_count, free_blocks, used_blocks) \<leftarrow>
          debug_count_loop (mem s) 0 0 0 (heap_start s);
        let s = serial_write_string ''[OS] [Memory] Total blocks: '' s;
        let s = serial_write_uint32 block_count s;
        let s = serial_write_string '' (Free: '' s;
        let s = serial_write_uint32 free_blocks s;
        let s = serial_write_string '', Used: '' s;
        let s = serial_write_uint32 used_blocks s;
        let s = msg '')'' s;
        Some (irq_restore irq_flags (unlock_heap s))
      })"

end
