(* ===== verification/Block_Chain.thy ===== *)
theory Block_Chain
  imports Heap_Allocator
begin

text \<open>
  The abstract view of the heap: the list of its blocks, each a size and whether it
  is free. \<open>hchain\<close> relates the list to the headers in memory; the replacement lemma
  says that rewriting the headers inside the extent of some blocks gives the chain
  in which those blocks are replaced.
\<close>

type_synonym blk = "u32 \<times> bool"

definition blk_extent :: "blk \<Rightarrow> nat" where
  "blk_extent b = 16 + unat (fst b)"

definition extent :: "blk list \<Rightarrow> nat" where
  "extent bs = sum_list (map blk_extent bs)"

definition after_blk :: "ptr \<Rightarrow> blk \<Rightarrow> ptr" where
  "after_blk p b = p + 16 + ucast (fst b)"

definition adv :: "ptr \<Rightarrow> blk list \<Rightarrow> ptr" where
  "adv p bs = foldl after_blk p bs"

definition hdr_at :: "memory \<Rightarrow> ptr \<Rightarrow> blk \<Rightarrow> ptr \<Rightarrow> bool" where
  "hdr_at m p b nxt \<longleftrightarrow>
     blk_size m p = fst b \<and> blk_is_free m p = of_bool (snd b) \<and> blk_next m p = nxt"

primrec hchain :: "memory \<Rightarrow> ptr \<Rightarrow> blk list \<Rightarrow> ptr \<Rightarrow> bool" where
  "hchain m p [] e \<longleftrightarrow> p = e"
| "hchain m p (b # bs) e \<longleftrightarrow>
     hdr_at m p b (if bs = [] then e else after_blk p b) \<and>
     (bs \<noteq> [] \<longrightarrow> hchain m (after_blk p b) bs e)"

subsection \<open>Extents and addresses\<close>

lemma extent_simps [simp]:
  "extent [] = 0" "extent (b # bs) = 16 + unat (fst b) + extent bs"
  "extent (as @ bs) = extent as + extent bs"
  by (simp_all add: extent_def blk_extent_def)

lemma adv_simps [simp]:
  "adv p [] = p" "adv p (b # bs) = adv (after_blk p b) bs" "adv p (as @ bs) = adv (adv p as) bs"
  by (simp_all add: adv_def)

lemma unat_after_blk:
  assumes "unat p + blk_extent b < 18446744073709551616"
  shows "unat (after_blk p b) = unat p + blk_extent b"
proof -
  have "unat (p + 16) = unat p + unat (16 :: u64)"
    using assms by (intro unat_add_noof) (simp add: blk_extent_def)
  moreover have "unat (p + 16 + ucast (fst b)) = unat (p + 16) + unat (ucast (fst b) :: u64)"
    using assms calculation by (intro unat_add_noof) (simp add: blk_extent_def)
  ultimately show ?thesis by (simp add: after_blk_def blk_extent_def)
qed

lemma unat_adv:
  "unat p + extent bs < 18446744073709551616 \<Longrightarrow> unat (adv p bs) = unat p + extent bs"
proof (induction bs arbitrary: p)
  case (Cons b bs)
  then have "unat (after_blk p b) = unat p + blk_extent b"
    by (intro unat_after_blk) (simp add: blk_extent_def)
  with Cons show ?case by (simp add: blk_extent_def)
qed simp

subsection \<open>Header fields\<close>

lemma hdr_fields [mem_simps]:
  "blk_size (set_size b v m) b = v"
  "blk_is_free (set_size b v m) b = blk_is_free m b"
  "blk_next (set_size b v m) b = blk_next m b"
  "blk_size (set_is_free b v m) b = blk_size m b"
  "blk_is_free (set_is_free b v m) b = v"
  "blk_next (set_is_free b v m) b = blk_next m b"
  "blk_size (set_next b q m) b = blk_size m b"
  "blk_is_free (set_next b q m) b = blk_is_free m b"
  "blk_next (set_next b q m) b = q"
proof -
  have a: "span b 4 \<inter> span (b + 4) 4 = {}" "span b 4 \<inter> span (b + 8) 8 = {}"
    by (rule span_offset_disjoint; simp)+
  have c: "span (b + 4) 4 \<inter> span (b + 8) 8 = {}"
    using span_offset_disjoint [of 4 4 8 "b + 4"] by (simp add: add.assoc)
  show "blk_size (set_size b v m) b = v" "blk_is_free (set_is_free b v m) b = v"
    "blk_next (set_next b q m) b = q"
    by (simp_all add: blk_size_def set_size_def blk_is_free_def set_is_free_def blk_next_def
        set_next_def mem_simps)
  show "blk_is_free (set_size b v m) b = blk_is_free m b"
    "blk_next (set_size b v m) b = blk_next m b"
    "blk_size (set_is_free b v m) b = blk_size m b"
    "blk_next (set_is_free b v m) b = blk_next m b"
    "blk_size (set_next b q m) b = blk_size m b"
    "blk_is_free (set_next b q m) b = blk_is_free m b"
    unfolding blk_size_def set_size_def blk_is_free_def set_is_free_def blk_next_def set_next_def
    using a c
    by (simp_all add: load32_store32_other load64_store32_other load32_store64_other Int_commute)
qed

text \<open>A header occupies the 16 bytes from its address on.\<close>

lemma hdr_parts:
  "span (b + 4) 4 \<subseteq> span b 16" "span (b + 8) 8 \<subseteq> span b 16" "span b 4 \<subseteq> span b 16"
  using span_sub [of 4 4 16 b] span_sub [of 8 8 16 b] span_sub [of 0 4 16 b] by simp_all

lemma hdr_cong:
  assumes "\<And>x. x \<in> span b 16 \<Longrightarrow> m' x = m x"
  shows "blk_size m' b = blk_size m b" "blk_is_free m' b = blk_is_free m b"
    "blk_next m' b = blk_next m b"
  unfolding blk_size_def blk_is_free_def blk_next_def
  using assms hdr_parts [of b] by (auto intro!: load32_cong load64_cong)

lemma hdr_set_other [mem_simps]:
  assumes "x \<notin> span b 16"
  shows "set_size b v m x = m x" "set_is_free b v m x = m x" "set_next b q m x = m x"
  unfolding set_size_def set_is_free_def set_next_def
  using assms hdr_parts [of b] by (auto intro!: store32_other store64_other)

lemma hdr_at_cong: "(\<And>x. x \<in> span p 16 \<Longrightarrow> m' x = m x) \<Longrightarrow> hdr_at m' p b q = hdr_at m p b q"
  by (simp add: hdr_at_def hdr_cong [of p m' m])

subsection \<open>Chains\<close>

lemma hchain_append:
  "bs \<noteq> [] \<Longrightarrow>
   hchain m p (as @ bs) e \<longleftrightarrow> hchain m p as (adv p as) \<and> hchain m (adv p as) bs e"
proof (induction as arbitrary: p)
  case (Cons a as)
  then show ?case by (cases as) auto
qed simp

lemma hchain_cong:
  assumes "unat p + extent bs < 18446744073709551616"
    and "\<And>x. unat p \<le> unat x \<Longrightarrow> unat x < unat p + extent bs \<Longrightarrow> m' x = m x"
  shows "hchain m' p bs e = hchain m p bs e"
  using assms
proof (induction bs arbitrary: p)
  case (Cons b bs)
  have sp: "x \<in> span p 16 \<longleftrightarrow> unat p \<le> unat x \<and> unat x < unat p + 16" for x
    using Cons.prems(1) by (intro span_noof) simp
  have "hdr_at m' p b q = hdr_at m p b q" for q
    by (rule hdr_at_cong) (use Cons.prems in \<open>auto simp: sp\<close>)
  moreover have "unat (after_blk p b) = unat p + blk_extent b"
    using Cons.prems(1) by (intro unat_after_blk) (simp add: blk_extent_def)
  then have "hchain m' (after_blk p b) bs e = hchain m (after_blk p b) bs e"
    using Cons.prems by (intro Cons.IH) (auto simp: blk_extent_def)
  ultimately show ?case by simp
qed simp

text \<open>Replacing the blocks \<open>xs\<close> of a chain by blocks \<open>ys\<close> of the same extent.\<close>

lemma hchain_replace:
  assumes chain: "hchain m p (as @ xs @ cs) e"
    and ext: "extent ys = extent xs" and ne: "xs \<noteq> []" "ys \<noteq> []"
    and noof: "unat p + extent (as @ xs @ cs) < 18446744073709551616"
    and same: "\<And>x. \<not> (unat (adv p as) \<le> unat x \<and> unat x < unat (adv p as) + extent xs)
                    \<Longrightarrow> m' x = m x"
    and new: "hchain m' (adv p as) ys (if cs = [] then e else adv (adv p as) ys)"
  shows "hchain m' p (as @ ys @ cs) e"
proof -
  have a: "unat (adv p as) = unat p + extent as"
    using noof by (intro unat_adv) simp
  have x: "unat (adv (adv p as) xs) = unat (adv p as) + extent xs"
    using noof a by (intro unat_adv) simp
  have y: "unat (adv (adv p as) ys) = unat (adv p as) + extent ys"
    using noof a ext by (intro unat_adv) simp
  have end_eq: "adv (adv p as) ys = adv (adv p as) xs"
    using x y ext by (simp add: word_unat_eq_iff)
  have "hchain m p as (adv p as)" and mid: "hchain m (adv p as) (xs @ cs) e"
    using chain ne by (simp_all add: hchain_append)
  then have 1: "hchain m' p as (adv p as)"
    using noof same a by (subst hchain_cong [of _ _ m' m]) auto
  have 2: "hchain m' (adv p as) (ys @ cs) e"
  proof (cases "cs = []")
    case True
    with new show ?thesis by simp
  next
    case False
    with mid have "hchain m (adv (adv p as) xs) cs e" by (simp add: hchain_append)
    then have "hchain m' (adv (adv p as) ys) cs e"
      unfolding end_eq using noof same a x by (subst hchain_cong [of _ _ m' m]) auto
    with new False show ?thesis by (simp add: hchain_append)
  qed
  with 1 ne show ?thesis by (simp add: hchain_append)
qed


subsection \<open>Splitting, marking and merging blocks\<close>


lemma hdr_disjoint [mem_simps]:
  assumes "span b 16 \<inter> span c 16 = {}"
  shows "blk_size (set_size c v m) b = blk_size m b"
    "blk_size (set_is_free c v m) b = blk_size m b"
    "blk_size (set_next c q m) b = blk_size m b"
    "blk_is_free (set_size c v m) b = blk_is_free m b"
    "blk_is_free (set_is_free c v m) b = blk_is_free m b"
    "blk_is_free (set_next c q m) b = blk_is_free m b"
    "blk_next (set_size c v m) b = blk_next m b"
    "blk_next (set_is_free c v m) b = blk_next m b"
    "blk_next (set_next c q m) b = blk_next m b"
  using assms by (auto intro!: hdr_cong hdr_set_other)

lemma hchain_mid:
  assumes "hchain m p (as @ b # cs) e"
  shows "hdr_at m (adv p as) b (if cs = [] then e else after_blk (adv p as) b)"
  using assms by (simp add: hchain_append)

text \<open>What splitting a block for \<open>n\<close> bytes leaves of it.\<close>

definition carve :: "u32 \<Rightarrow> blk \<Rightarrow> blk list" where
  "carve n b =
     (if unat n + 80 \<le> unat (fst b) then [(n, snd b), (fst b - n - 16, True)] else [b])"

lemma split_condition:
  "ucast sz \<ge> (ucast n :: u64) + sizeof_memory_block + ucast MIN_SPLIT_REMAINDER
   \<longleftrightarrow> unat n + 80 \<le> unat sz" for n sz :: u32
proof -
  have "unat ((ucast n :: u64) + 16) = unat n + 16"
    using unat_lt_u32 [of n] by (subst unat_add_noof) simp_all
  then have "unat ((ucast n :: u64) + 16 + 64) = unat n + 80"
    using unat_lt_u32 [of n] by (subst unat_add_noof) simp_all
  then show ?thesis
    by (simp add: word_le_nat_alt sizeof_memory_block_def MIN_SPLIT_REMAINDER_def)
qed

lemma split_block_eq:
  "split_block_if_needed q n m =
     (if unat n + 80 \<le> unat (blk_size m q)
      then let r = q + 16 + ucast n;
               m = set_size r (ucast (ucast (blk_size m q) - (ucast n :: u64) - 16)) m;
               m = set_is_free r 1 m;
               m = set_next r (blk_next m q) m;
               m = set_size q n m
           in set_next q r m
      else m)"
  unfolding split_block_if_needed_def split_condition
  unfolding sizeof_memory_block_def ..

lemma carve_rest:
  fixes sz n :: u32
  assumes "unat n + 16 \<le> unat sz"
  shows "unat (sz - n - 16) = unat sz - unat n - 16"
    and "(ucast ((ucast sz :: u64) - ucast n - 16) :: u32) = sz - n - 16"
proof -
  have 1: "unat (sz - n) = unat sz - unat n" using assms by (intro unat_diff_noof) simp
  then show 2: "unat (sz - n - 16) = unat sz - unat n - 16"
    using assms by (subst unat_diff_noof) simp_all
  have 3: "unat ((ucast sz :: u64) - ucast n) = unat sz - unat n"
    using assms by (subst unat_diff_noof) simp_all
  then have 4: "unat ((ucast sz :: u64) - ucast n - 16) = unat sz - unat n - 16"
    using assms by (subst unat_diff_noof) simp_all
  have "unat (ucast ((ucast sz :: u64) - ucast n - 16) :: u32) = unat sz - unat n - 16"
    using 4 unat_lt_u32 [of sz] by (subst unat_ucast_u64_u32) simp_all
  with 2 show "(ucast ((ucast sz :: u64) - ucast n - 16) :: u32) = sz - n - 16"
    by (simp add: word_unat_eq_iff)
qed

lemma extent_carve [simp]: "extent (carve n b) = blk_extent b"
  by (simp add: carve_def blk_extent_def carve_rest)

lemma carve_nonempty [simp]: "carve n b \<noteq> []"
  by (simp add: carve_def)

lemma split_outside:
  assumes "blk_size m q = fst b" and "unat q + blk_extent b < 18446744073709551616"
    and "\<not> (unat q \<le> unat x \<and> unat x < unat q + blk_extent b)"
  shows "split_block_if_needed q n m x = m x"
proof (cases "unat n + 80 \<le> unat (fst b)")
  case True
  let ?q = "q + 16 + ucast n"
  have u: "unat ?q = unat q + 16 + unat n"
    using unat_after_blk [of q "(n, True)"] assms(2) True
    by (simp add: after_blk_def blk_extent_def)
  have "x \<notin> span q 16" "x \<notin> span ?q 16"
    using assms(2,3) True u by (auto simp: span_noof blk_extent_def)
  then show ?thesis
    using True assms(1)
    by (simp add: split_block_eq Let_def mem_simps)
next
  case False
  then show ?thesis using assms(1) by (simp add: split_block_eq)
qed

lemma split_hchain_one:
  assumes h: "hdr_at m q b e" and noof: "unat q + blk_extent b < 18446744073709551616"
  shows "hchain (split_block_if_needed q n m) q (carve n b) e"
proof (cases "unat n + 80 \<le> unat (fst b)")
  case True
  let ?q = "q + 16 + ucast n"
  have u: "unat ?q = unat q + 16 + unat n"
    using unat_after_blk [of q "(n, True)"] noof True
    by (simp add: after_blk_def blk_extent_def)
  have d: "span q 16 \<inter> span ?q 16 = {}" "span ?q 16 \<inter> span q 16 = {}"
    using noof True u by (auto simp: span_noof blk_extent_def)
  show ?thesis
    using True h d
    by (simp add: split_block_eq Let_def mem_simps hdr_at_def
        carve_def after_blk_def carve_rest)
next
  case False
  then show ?thesis
    using h by (simp add: split_block_eq carve_def hdr_at_def)
qed



lemma adv_extent_eq:
  assumes "extent xs = extent ys" and "unat q + extent xs < 18446744073709551616"
  shows "adv q xs = adv q ys"
  using assms unat_adv [of q xs] unat_adv [of q ys] by (simp add: word_unat_eq_iff)

lemma unat_adv_prefix:
  "unat p + extent (as @ bs) < 18446744073709551616 \<Longrightarrow> unat (adv p as) = unat p + extent as"
  by (rule unat_adv) simp

lemma hchain_split:
  assumes chain: "hchain m p (as @ b # cs) e"
    and noof: "unat p + extent (as @ b # cs) < 18446744073709551616"
  shows "hchain (split_block_if_needed (adv p as) n m) p (as @ carve n b @ cs) e"
proof -
  note q = unat_adv_prefix [OF noof]
  have room: "unat (adv p as) + blk_extent b < 18446744073709551616"
    using noof q by (simp add: blk_extent_def)
  have eq: "adv (adv p as) (carve n b) = adv (adv p as) [b]"
    using room by (intro adv_extent_eq) (simp_all add: blk_extent_def)
  from hchain_mid [OF chain]
  have h: "hdr_at m (adv p as) b (if cs = [] then e else adv (adv p as) (carve n b))"
    by (cases "cs = []") (simp_all add: eq)
  then have sz: "blk_size m (adv p as) = fst b" by (simp add: hdr_at_def)
  show ?thesis
  proof (rule hchain_replace [of m p as "[b]" cs e])
    show "split_block_if_needed (adv p as) n m x = m x"
      if "\<not> (unat (adv p as) \<le> unat x \<and> unat x < unat (adv p as) + extent [b])" for x
      using that by (intro split_outside [OF sz room]) (simp add: blk_extent_def)
    show "hchain (split_block_if_needed (adv p as) n m) (adv p as) (carve n b)
        (if cs = [] then e else adv (adv p as) (carve n b))"
      by (rule split_hchain_one [OF h room])
  qed (use chain noof in \<open>simp_all add: blk_extent_def\<close>)
qed

lemma hchain_set_is_free:
  assumes chain: "hchain m p (as @ (sz, f) # cs) e"
    and noof: "unat p + extent (as @ (sz, f) # cs) < 18446744073709551616"
  shows "hchain (set_is_free (adv p as) (of_bool g) m) p (as @ (sz, g) # cs) e"
proof -
  note q = unat_adv_prefix [OF noof]
  have "hchain (set_is_free (adv p as) (of_bool g) m) p (as @ [(sz, g)] @ cs) e"
  proof (rule hchain_replace [of m p as "[(sz, f)]" cs e])
    show "set_is_free (adv p as) (of_bool g) m x = m x"
      if "\<not> (unat (adv p as) \<le> unat x \<and> unat x < unat (adv p as) + extent [(sz, f)])" for x
      using that noof q by (intro hdr_set_other) (auto simp: span_noof)
    show "hchain (set_is_free (adv p as) (of_bool g) m) (adv p as) [(sz, g)]
        (if cs = [] then e else adv (adv p as) [(sz, g)])"
      using hchain_mid [OF chain] by (simp add: hdr_at_def mem_simps after_blk_def)
  qed (use chain noof in simp_all)
  then show ?thesis by simp
qed

definition join_blk :: "blk \<Rightarrow> blk \<Rightarrow> blk" where
  "join_blk b c = (fst b + 16 + fst c, snd b)"

lemma join_blk_size:
  assumes "unat (fst b) + 16 + unat (fst c) < 4294967296"
  shows "unat (fst (join_blk b c)) = unat (fst b) + 16 + unat (fst c)"
    and "(ucast ((ucast (fst b) :: u64) + (16 + ucast (fst c))) :: u32) = fst (join_blk b c)"
proof -
  have "unat (fst b + 16) = unat (fst b) + 16"
    using assms by (subst unat_add_noof) simp_all
  then show 1: "unat (fst (join_blk b c)) = unat (fst b) + 16 + unat (fst c)"
    using assms by (simp add: join_blk_def) (subst unat_add_noof, simp_all)
  have "unat (16 + ucast (fst c) :: u64) = 16 + unat (fst c)"
    using assms by (subst unat_add_noof) simp_all
  then have "unat ((ucast (fst b) :: u64) + (16 + ucast (fst c))) = unat (fst b) + 16 + unat (fst c)"
    using assms by (subst unat_add_noof) simp_all
  then have "unat (ucast ((ucast (fst b) :: u64) + (16 + ucast (fst c))) :: u32)
      = unat (fst b) + 16 + unat (fst c)"
    using assms by (subst unat_ucast_u64_u32) simp_all
  with 1 show "(ucast ((ucast (fst b) :: u64) + (16 + ucast (fst c))) :: u32) = fst (join_blk b c)"
    by (simp add: word_unat_eq_iff)
qed

lemma hchain_absorb:
  assumes chain: "hchain m p (as @ b # c # cs) e"
    and noof: "unat p + extent (as @ b # c # cs) < 18446744073709551616"
    and small: "unat (fst b) + 16 + unat (fst c) < 4294967296"
  shows "hchain (absorb_block (adv p as) (after_blk (adv p as) b) m) p (as @ join_blk b c # cs) e"
proof -
  let ?q = "adv p as" and ?r = "after_blk (adv p as) b"
  let ?m = "absorb_block ?q ?r m"
  note q = unat_adv_prefix [OF noof]
  have hb: "hdr_at m ?q b ?r" using hchain_mid [OF chain] by simp
  have hc: "hdr_at m ?r c (if cs = [] then e else after_blk ?r c)"
    using hchain_mid [of m p "as @ [b]" c cs e] chain by (cases "cs = []") simp_all
  have out: "?m x = m x" if "x \<notin> span ?q 16" for x
    using that by (simp add: absorb_block_def Let_def mem_simps)
  have ext: "extent [join_blk b c] = extent [b, c]"
    by (simp add: join_blk_size [OF small])
  have "hchain ?m p (as @ [join_blk b c] @ cs) e"
  proof (rule hchain_replace [of m p as "[b, c]" cs e])
    show "?m x = m x"
      if "\<not> (unat ?q \<le> unat x \<and> unat x < unat ?q + extent [b, c])" for x
      using that noof q by (intro out) (auto simp: span_noof)
    have "adv ?q [join_blk b c] = adv ?q [b, c]"
      using noof q ext by (intro adv_extent_eq) simp_all
    moreover have r: "unat ?r = unat ?q + blk_extent b"
      using noof q by (intro unat_after_blk) (simp add: blk_extent_def)
    then have "span ?r 16 \<inter> span ?q 16 = {}"
      using noof q by (auto simp: span_noof blk_extent_def)
    ultimately show "hchain ?m ?q [join_blk b c] (if cs = [] then e else adv ?q [join_blk b c])"
      using hb hc join_blk_size(2) [OF small]
      by (simp add: hdr_at_def absorb_block_def Let_def mem_simps sizeof_memory_block_def)
        (simp add: join_blk_def)
  qed (use chain noof ext in simp_all)
  then show ?thesis by simp
qed



subsection \<open>Blocks by index\<close>

definition blk_addr :: "ptr \<Rightarrow> blk list \<Rightarrow> nat \<Rightarrow> ptr" where
  "blk_addr p bs j = adv p (take j bs)"

lemma blk_addr_0 [simp]: "blk_addr p bs 0 = p"
  by (simp add: blk_addr_def)

lemma extent_take_drop: "extent (take j bs) + extent (drop j bs) = extent bs"
  by (metis append_take_drop_id extent_simps(3))

lemma extent_take_Suc:
  "j < length bs \<Longrightarrow> extent (take (Suc j) bs) = extent (take j bs) + blk_extent (bs ! j)"
  by (simp add: take_Suc_conv_app_nth blk_extent_def)

lemma extent_take_mono: "i \<le> j \<Longrightarrow> extent (take i bs) \<le> extent (take j bs)"
proof -
  assume "i \<le> j"
  then have "take j bs = take i bs @ take (j - i) (drop i bs)"
    by (metis le_add_diff_inverse take_add)
  then show ?thesis by simp
qed

lemma unat_blk_addr:
  "unat p + extent bs < 18446744073709551616 \<Longrightarrow>
   unat (blk_addr p bs j) = unat p + extent (take j bs)"
  unfolding blk_addr_def by (rule unat_adv) (use extent_take_drop [of j bs] in linarith)

lemma blk_addr_less:
  assumes "unat p + extent bs < 18446744073709551616" and "i < j" and "i < length bs"
  shows "unat (blk_addr p bs i) + blk_extent (bs ! i) \<le> unat (blk_addr p bs j)"
  using extent_take_mono [of "Suc i" j bs] assms
  by (simp add: unat_blk_addr extent_take_Suc)

lemma blk_addr_inj:
  assumes noof: "unat p + extent bs < 18446744073709551616"
    and "i < length bs" and "j < length bs"
  shows "blk_addr p bs i = blk_addr p bs j \<longleftrightarrow> i = j"
proof -
  have "blk_extent b > 0" for b by (simp add: blk_extent_def)
  then show ?thesis
    using blk_addr_less [OF noof, of i j] blk_addr_less [OF noof, of j i] assms(2,3)
    by (metis add_leE leD linorder_neqE_nat less_add_same_cancel1)
qed

lemma blk_addr_nonnull:
  assumes "unat p + extent bs < 18446744073709551616" and "p \<noteq> NULL"
  shows "blk_addr p bs j \<noteq> NULL"
proof
  assume "blk_addr p bs j = NULL"
  then have "unat p = 0" using unat_blk_addr [OF assms(1), of j] by simp
  with assms(2) show False by (simp add: unat_eq_0)
qed

lemma nth_split: "j < length bs \<Longrightarrow> bs = take j bs @ bs ! j # drop (Suc j) bs"
  by (rule id_take_nth_drop)

lemma hchain_nth:
  assumes "hchain m p bs e" and "j < length bs"
  shows "hdr_at m (blk_addr p bs j) (bs ! j)
           (if Suc j < length bs then blk_addr p bs (Suc j) else e)"
proof -
  have "hchain m p (take j bs @ bs ! j # drop (Suc j) bs) e"
    using assms nth_split by metis
  from hchain_mid [OF this] show ?thesis
    using assms(2) by (auto simp: blk_addr_def take_Suc_conv_app_nth split: if_splits)
qed

subsection \<open>The next-fit search\<close>

definition fits :: "u32 \<Rightarrow> blk \<Rightarrow> bool" where
  "fits n b \<longleftrightarrow> snd b \<and> n \<le> fst b"

definition found_addr :: "ptr \<Rightarrow> blk list \<Rightarrow> nat option \<Rightarrow> ptr" where
  "found_addr p bs r = (case r of None \<Rightarrow> NULL | Some j \<Rightarrow> blk_addr p bs j)"

lemma search_step:
  assumes "hchain m p bs NULL" and "i < length bs" and "p \<noteq> NULL"
    and "unat p + extent bs < 18446744073709551616"
  shows "kmalloc_search m p start n (blk_addr p bs i) w =
    (if fits n (bs ! i) then Some (blk_addr p bs i)
     else if Suc i < length bs
     then if w \<and> blk_addr p bs (Suc i) = start then Some NULL
          else kmalloc_search m p start n (blk_addr p bs (Suc i)) w
     else if w then (if start = NULL then Some NULL else kmalloc_search m p start n NULL True)
     else if p = start then Some NULL else kmalloc_search m p start n p True)"
proof -
  have h: "hdr_at m (blk_addr p bs i) (bs ! i)
      (if Suc i < length bs then blk_addr p bs (Suc i) else NULL)"
    by (rule hchain_nth [OF assms(1,2)])
  have nn: "blk_addr p bs j \<noteq> NULL" for j
    by (rule blk_addr_nonnull [OF assms(4,3)])
  show ?thesis
    using h nn [of i] nn [of "Suc i"]
    by (subst kmalloc_search.simps) (auto simp: hdr_at_def fits_def Let_def)
qed

lemma search_wrapped:
  assumes chain: "hchain m p bs NULL" and nn: "p \<noteq> NULL"
    and noof: "unat p + extent bs < 18446744073709551616"
    and "i < k" and "k < length bs"
  shows "kmalloc_search m p (blk_addr p bs k) n (blk_addr p bs i) True =
    Some (found_addr p bs (find (\<lambda>j. fits n (bs ! j)) [i..<k]))"
  using assms(4)
proof (induction "k - i" arbitrary: i)
  case (Suc d)
  then have i: "i < length bs" and Si: "Suc i < length bs" using assms(5) by simp_all
  have upt: "[i..<k] = i # [Suc i..<k]" using Suc.prems by (simp add: upt_conv_Cons)
  show ?case
  proof (cases "Suc i = k")
    case True
    with i Si show ?thesis
      by (subst search_step [OF chain i nn noof]) (simp add: upt found_addr_def)
  next
    case False
    then have "Suc i < k" using Suc.prems by simp
    moreover have "blk_addr p bs (Suc i) \<noteq> blk_addr p bs k"
      using False Si assms(5) by (simp add: blk_addr_inj [OF noof])
    ultimately show ?thesis
      using Suc Si
      by (subst search_step [OF chain i nn noof]) (simp add: upt found_addr_def)
  qed
qed simp

lemma search_next_fit:
  assumes chain: "hchain m p bs NULL" and nn: "p \<noteq> NULL"
    and noof: "unat p + extent bs < 18446744073709551616"
    and "i < length bs" and k: "k < length bs"
  shows "kmalloc_search m p (blk_addr p bs k) n (blk_addr p bs i) False =
    Some (found_addr p bs (find (\<lambda>j. fits n (bs ! j)) ([i..<length bs] @ [0..<k])))"
  using assms(4)
proof (induction "length bs - i" arbitrary: i)
  case (Suc d)
  have upt: "[i..<length bs] = i # [Suc i..<length bs]"
    using Suc.prems by (simp add: upt_conv_Cons)
  show ?case
  proof (cases "Suc i < length bs")
    case True
    with Suc show ?thesis
      by (subst search_step [OF chain Suc.prems nn noof]) (simp add: upt found_addr_def)
  next
    case False
    then have last: "[Suc i..<length bs] = []" by simp
    show ?thesis
    proof (cases "k = 0")
      case True
      with False last show ?thesis
        by (subst search_step [OF chain Suc.prems nn noof]) (simp add: upt found_addr_def)
    next
      case k0: False
      moreover have "0 < length bs" using k by linarith
      ultimately have "p \<noteq> blk_addr p bs k"
        using blk_addr_inj [OF noof _ k, of 0] by simp
      with False last k0 search_wrapped [OF chain nn noof, of 0 k n] k show ?thesis
        by (subst search_step [OF chain Suc.prems nn noof]) (simp add: upt found_addr_def)
    qed
  qed
qed simp



subsection \<open>Walking the list\<close>

text \<open>The payload of block \<open>j\<close> starts behind its header.\<close>

definition payload :: "ptr \<Rightarrow> blk list \<Rightarrow> nat \<Rightarrow> ptr" where
  "payload p bs j = blk_addr p bs j + 16"

lemma payload_inj:
  assumes "unat p + extent bs < 18446744073709551616" and "i < length bs" and "j < length bs"
  shows "payload p bs i = payload p bs j \<longleftrightarrow> i = j"
  using blk_addr_inj [OF assms] by (simp add: payload_def)

definition prev_addr :: "ptr \<Rightarrow> blk list \<Rightarrow> nat \<Rightarrow> ptr" where
  "prev_addr p bs j = (if j = 0 then NULL else blk_addr p bs (j - 1))"

lemma find_block_from:
  assumes chain: "hchain m p bs NULL" and nn: "p \<noteq> NULL"
    and noof: "unat p + extent bs < 18446744073709551616"
    and "i < length bs"
  shows "find_block_loop m target NULL (prev_addr p bs i) (blk_addr p bs i) =
    Some (case find (\<lambda>j. payload p bs j = target) [i..<length bs] of
            None \<Rightarrow> (NULL, NULL) | Some j \<Rightarrow> (blk_addr p bs j, prev_addr p bs j))"
  using assms(4)
proof (induction "length bs - i" arbitrary: i)
  case (Suc d)
  have upt: "[i..<length bs] = i # [Suc i..<length bs]"
    using Suc.prems by (simp add: upt_conv_Cons)
  have h: "blk_next m (blk_addr p bs i) = (if Suc i < length bs then blk_addr p bs (Suc i) else NULL)"
    using hchain_nth [OF chain Suc.prems] by (simp add: hdr_at_def)
  have a: "blk_addr p bs i \<noteq> NULL" by (rule blk_addr_nonnull [OF noof nn])
  show ?case
  proof (cases "Suc i < length bs")
    case True
    then have "find_block_loop m target NULL (blk_addr p bs i) (blk_addr p bs (Suc i)) =
      Some (case find (\<lambda>j. payload p bs j = target) [Suc i..<length bs] of
            None \<Rightarrow> (NULL, NULL) | Some j \<Rightarrow> (blk_addr p bs j, prev_addr p bs j))"
      using Suc(1) [of "Suc i"] Suc(2) by (simp add: prev_addr_def)
    with True a h show ?thesis
      by (subst find_block_loop.simps) (simp add: upt payload_def sizeof_memory_block_def)
  next
    case False
    then have "find_block_loop m target NULL (blk_addr p bs i) NULL = Some (NULL, NULL)"
      by (simp add: find_block_loop.simps)
    with False a h show ?thesis
      by (subst find_block_loop.simps) (simp add: upt payload_def sizeof_memory_block_def)
  qed
qed simp

lemma find_block_payload:
  assumes "hchain (mem s) (heap_start s) bs NULL" and "heap_start s \<noteq> NULL"
    and "unat (heap_start s) + extent bs < 18446744073709551616" and "j < length bs"
  shows "find_block_by_payload (payload (heap_start s) bs j) s =
    Some (blk_addr (heap_start s) bs j, prev_addr (heap_start s) bs j)"
proof -
  let ?p = "heap_start s"
  have "find (\<lambda>i. payload ?p bs i = payload ?p bs j) [0..<length bs] = Some j"
    using assms(4) by (auto simp: find_Some_iff payload_inj [OF assms(3)] intro!: exI [of _ j])
  moreover have "0 < length bs" using assms(4) by linarith
  ultimately show ?thesis
    using find_block_from [OF assms(1-3), of 0] by (simp add: find_block_by_payload_def prev_addr_def)
qed

lemma find_block_untracked:
  assumes "hchain (mem s) (heap_start s) bs NULL" and "heap_start s \<noteq> NULL"
    and "unat (heap_start s) + extent bs < 18446744073709551616" and "bs \<noteq> []"
    and "\<And>j. j < length bs \<Longrightarrow> payload (heap_start s) bs j \<noteq> target"
  shows "find_block_by_payload target s = Some (NULL, NULL)"
proof -
  have "find (\<lambda>j. payload (heap_start s) bs j = target) [0..<length bs] = None"
    using assms(5) by (auto simp: find_None_iff)
  then show ?thesis
    using find_block_from [OF assms(1-3), of 0 target] assms(4)
    by (simp add: find_block_by_payload_def prev_addr_def)
qed

definition free_sum :: "blk list \<Rightarrow> u32" where
  "free_sum bs = sum_list (map fst (filter snd bs))"

definition used_sum :: "blk list \<Rightarrow> u32" where
  "used_sum bs = sum_list (map fst (filter (\<lambda>b. \<not> snd b) bs))"

lemma sum_simps [simp]:
  "free_sum [] = 0" "free_sum (b # bs) = (if snd b then fst b else 0) + free_sum bs"
  "free_sum (as @ bs) = free_sum as + free_sum bs"
  "used_sum [] = 0" "used_sum (b # bs) = (if snd b then 0 else fst b) + used_sum bs"
  "used_sum (as @ bs) = used_sum as + used_sum bs"
  by (simp_all add: free_sum_def used_sum_def)

lemma free_memory_loop_sum:
  assumes "hchain m p bs NULL" and "p \<noteq> NULL" and "unat p + extent bs < 18446744073709551616"
  shows "free_memory_loop m acc p = Some (acc + free_sum bs)"
  using assms
proof (induction bs arbitrary: p acc)
  case (Cons b bs)
  then have u: "unat (after_blk p b) = unat p + blk_extent b"
    by (intro unat_after_blk) (simp add: blk_extent_def)
  then have "after_blk p b \<noteq> NULL"
    using Cons.prems(2) by (auto simp: blk_extent_def)
  with Cons u show ?case
    by (subst free_memory_loop.simps)
      (auto simp: hdr_at_def blk_extent_def free_memory_loop.simps [of _ _ 0] split: if_splits)
qed simp

lemma debug_count_loop_counts:
  assumes "hchain m p bs NULL" and "p \<noteq> NULL" and "unat p + extent bs < 18446744073709551616"
  shows "debug_count_loop m n f u p =
    Some (n + of_nat (length bs), f + of_nat (length (filter snd bs)),
          u + of_nat (length (filter (\<lambda>b. \<not> snd b) bs)))"
  using assms
proof (induction bs arbitrary: p n f u)
  case (Cons b bs)
  then have u: "unat (after_blk p b) = unat p + blk_extent b"
    by (intro unat_after_blk) (simp add: blk_extent_def)
  then have "after_blk p b \<noteq> NULL"
    using Cons.prems(2) by (auto simp: blk_extent_def)
  with Cons u show ?case
    by (subst debug_count_loop.simps)
      (auto simp: hdr_at_def blk_extent_def debug_count_loop.simps [of _ _ _ _ 0] split: if_splits)
qed simp

end
