(* ===== verification/Heap_Correct.thy ===== *)
theory Heap_Correct
  imports Block_Chain
begin

text \<open>
  Correctness of the heap operations over the abstract block list: what
  \<open>kmalloc\<close>, \<open>kfree\<close>, \<open>kcalloc\<close> and \<open>krealloc\<close> do to the list, and that they keep the
  heap invariant.
\<close>

subsection \<open>Rounding up to the allocation unit\<close>

lemma unat_and_not_7: "unat (x AND - 8 :: u32) = 8 * (unat x div 8)"
proof -
  have "(- 8 :: u32) = NOT (mask 3)" by (simp add: mask_eq_exp_minus_1)
  then show ?thesis using unat_and_not_mask [of x 3] by (simp only:) simp
qed

lemma align_up_unit: "align_up n MIN_ALLOC_ALIGN = (n + 7) AND - 8"
  by (simp add: align_up_def MIN_ALLOC_ALIGN_def add.commute)

lemma align_up_dvd [simp]: "8 dvd unat (align_up n MIN_ALLOC_ALIGN)"
  by (simp add: align_up_unit unat_and_not_7)

lemma align_up_bounds:
  assumes "unat n \<le> 4294967288"
  shows "unat n \<le> unat (align_up n MIN_ALLOC_ALIGN)"
    and "unat (align_up n MIN_ALLOC_ALIGN) < unat n + 8"
proof -
  have "unat (n + 7) = unat n + 7" using assms by (subst unat_add_noof) simp_all
  then show "unat n \<le> unat (align_up n MIN_ALLOC_ALIGN)"
    "unat (align_up n MIN_ALLOC_ALIGN) < unat n + 8"
    by (simp_all add: align_up_unit unat_and_not_7)
qed

lemma align_up_wraps:
  assumes "unat n > 4294967288"
  shows "align_up n MIN_ALLOC_ALIGN = 0"
proof -
  have "unat (n + 7) = unat n + 7 - 4294967296"
    using assms unat_lt_u32 [of n] by (simp add: unat_word_ariths mod_if)
  then have "unat (align_up n MIN_ALLOC_ALIGN) = 0"
    using assms unat_lt_u32 [of n] by (simp add: align_up_unit unat_and_not_7)
  then show ?thesis by (simp add: unat_eq_0)
qed

subsection \<open>The heap invariant\<close>

definition heap_core :: "'a memory_state_scheme \<Rightarrow> blk list \<Rightarrow> bool" where
  "heap_core s bs \<longleftrightarrow>
     heap_initialized s \<noteq> 0 \<and> heap_start s \<noteq> NULL \<and> 8 dvd unat (heap_start s) \<and>
     unat (heap_start s) + 16777216 < 18446744073709551616 \<and>
     bs \<noteq> [] \<and> extent bs = 16777216 \<and> (\<forall>b \<in> set bs. 8 dvd unat (fst b)) \<and>
     hchain (mem s) (heap_start s) bs NULL \<and>
     (heap_search_hint s = NULL \<or>
      (\<exists>k < length bs. heap_search_hint s = blk_addr (heap_start s) bs k))"

fun coalesced :: "blk list \<Rightarrow> bool" where
  "coalesced (a # b # bs) \<longleftrightarrow> \<not> (snd a \<and> snd b) \<and> coalesced (b # bs)"
| "coalesced _ \<longleftrightarrow> True"

text \<open>
  Between two operations the lock is free, no two neighbours are both free, and the
  counters differ by the bytes handed out.
\<close>

definition heap_ready :: "'a memory_state_scheme \<Rightarrow> blk list \<Rightarrow> bool" where
  "heap_ready s bs \<longleftrightarrow> heap_core s bs \<and> heap_lock s = 0"

definition heap_inv :: "'a memory_state_scheme \<Rightarrow> blk list \<Rightarrow> bool" where
  "heap_inv s bs \<longleftrightarrow> heap_ready s bs \<and> coalesced bs \<and>
     total_allocated s - total_freed s = used_sum bs"

lemma heap_coreD:
  assumes "heap_core s bs"
  shows "hchain (mem s) (heap_start s) bs NULL" "heap_start s \<noteq> NULL"
    "unat (heap_start s) + extent bs < 18446744073709551616" "bs \<noteq> []"
    "extent bs = 16777216"
  using assms by (simp_all add: heap_core_def)

lemma heap_core_hint:
  assumes "heap_core s bs"
  obtains k where "k < length bs"
    and "(if heap_search_hint s = NULL then heap_start s else heap_search_hint s) =
         blk_addr (heap_start s) bs k"
proof (cases "heap_search_hint s = NULL")
  case True
  then show ?thesis
    using that [of 0] heap_coreD(4) [OF assms] by simp
next
  case False
  then show ?thesis using that assms by (auto simp: heap_core_def)
qed

lemma extent_mem: "b \<in> set bs \<Longrightarrow> blk_extent b \<le> extent bs"
  by (simp add: extent_def member_le_sum_list)

text \<open>The list after handing out block \<open>j\<close> for \<open>n\<close> bytes.\<close>

definition alloc_blk :: "u32 \<Rightarrow> nat \<Rightarrow> blk list \<Rightarrow> blk list" where
  "alloc_blk n j bs = take j bs @ carve n (fst (bs ! j), False) @ drop (Suc j) bs"

lemma alloc_blk_addr: "j \<le> length bs \<Longrightarrow> i \<le> j \<Longrightarrow> blk_addr p (alloc_blk n j bs) i = blk_addr p bs i"
  by (simp add: alloc_blk_def blk_addr_def min_def)

lemma alloc_blk_extent [simp]: "j < length bs \<Longrightarrow> extent (alloc_blk n j bs) = extent bs"
proof -
  assume j: "j < length bs"
  have "extent bs = extent (take j bs @ bs ! j # drop (Suc j) bs)"
    using nth_split [OF j] by simp
  then show ?thesis by (simp add: alloc_blk_def blk_extent_def)
qed

lemma alloc_blk_length: "j < length bs \<Longrightarrow> length bs \<le> length (alloc_blk n j bs)"
  by (simp add: alloc_blk_def carve_def)

lemma alloc_blk_aligned:
  assumes "\<forall>b \<in> set bs. 8 dvd unat (fst b)" and "8 dvd unat n" and "j < length bs"
  shows "\<forall>b \<in> set (alloc_blk n j bs). 8 dvd unat (fst b)"
proof -
  have "8 dvd unat (fst (bs ! j))" using assms by simp
  moreover have "unat n + 80 \<le> unat (fst (bs ! j)) \<Longrightarrow>
      8 dvd unat (fst (bs ! j) - n - 16)"
    using assms(2) calculation by (simp add: carve_rest dvd_diff_nat)
  ultimately show ?thesis
    using assms by (auto simp: alloc_blk_def carve_def dest: in_set_takeD in_set_dropD)
qed


subsection \<open>Allocation\<close>

definition next_fit :: "u32 \<Rightarrow> nat \<Rightarrow> blk list \<Rightarrow> nat option" where
  "next_fit n k bs = find (\<lambda>j. fits n (bs ! j)) ([k..<length bs] @ [0..<k])"

lemma next_fit_Some:
  "next_fit n k bs = Some j \<Longrightarrow> k \<le> length bs \<Longrightarrow> j < length bs \<and> snd (bs ! j) \<and> n \<le> fst (bs ! j)"
  unfolding next_fit_def fits_def by (auto dest!: find_SomeD)

lemma next_fit_None:
  "next_fit n k bs = None \<longleftrightarrow> (\<forall>b \<in> set bs. \<not> fits n b)" if "k \<le> length bs"
proof -
  have "set ([k..<length bs] @ [0..<k]) = {..<length bs}" using that by auto
  then show ?thesis
    unfolding next_fit_def find_None_iff by (metis in_set_conv_nth lessThan_iff)
qed

lemma alloc_memory:
  fixes n :: u32 and s :: "'a memory_state_scheme"
  assumes core: "heap_core s bs" and j: "j < length bs"
  defines "q \<equiv> blk_addr (heap_start s) bs j"
  defines "m \<equiv> set_is_free q 0 (split_block_if_needed q n (mem s))"
  shows "hchain m (heap_start s) (alloc_blk n j bs) NULL"
    and "\<not> (unat q \<le> unat x \<and> unat x < unat q + blk_extent (bs ! j)) \<Longrightarrow> m x = mem s x"
proof -
  let ?p = "heap_start s" and ?as = "take j bs" and ?b = "bs ! j" and ?cs = "drop (Suc j) bs"
  note c = heap_coreD [OF core]
  have bs: "bs = ?as @ ?b # ?cs" by (rule nth_split [OF j])
  have chain: "hchain (mem s) ?p (?as @ ?b # ?cs) NULL" using c(1) bs by metis
  have noof: "unat ?p + extent (?as @ ?b # ?cs) < 18446744073709551616" using c(3) bs by metis
  have q: "q = adv ?p ?as" by (simp add: q_def blk_addr_def)
  have split: "hchain (split_block_if_needed q n (mem s)) ?p (?as @ carve n ?b @ ?cs) NULL"
    unfolding q by (rule hchain_split [OF chain noof])
  obtain sz cs' where carve: "carve n ?b = (sz, snd ?b) # cs'"
      "carve n (fst ?b, False) = (sz, False) # cs'"
    by (cases "unat n + 80 \<le> unat (fst ?b)") (auto simp: carve_def prod_eq_iff)
  have "extent (carve n ?b) = blk_extent ?b" by simp
  then have "hchain (set_is_free q (of_bool False) (split_block_if_needed q n (mem s))) ?p
      (?as @ (sz, False) # cs' @ ?cs) NULL"
    unfolding q using split noof q carve(1)
    by (intro hchain_set_is_free [where f = "snd ?b"]) (simp_all add: blk_extent_def)
  then show "hchain m ?p (alloc_blk n j bs) NULL"
    by (simp add: m_def alloc_blk_def carve(2))
  assume out: "\<not> (unat q \<le> unat x \<and> unat x < unat q + blk_extent ?b)"
  have u: "unat q + blk_extent ?b < 18446744073709551616"
    unfolding q using noof by (simp add: unat_adv_prefix [OF noof] blk_extent_def)
  have sz: "blk_size (mem s) q = fst ?b"
    using hchain_nth [OF c(1) j] by (simp add: hdr_at_def q_def)
  have "x \<notin> span q 16" using out u by (auto simp: span_noof blk_extent_def)
  then show "m x = mem s x"
    by (simp add: m_def mem_simps split_outside [OF sz u out])
qed


text \<open>Where the next search starts.\<close>

definition hint_at :: "'a memory_state_scheme \<Rightarrow> blk list \<Rightarrow> nat \<Rightarrow> bool" where
  "hint_at s bs k \<longleftrightarrow> k < length bs \<and>
     (if heap_search_hint s = NULL then heap_start s else heap_search_hint s) =
     blk_addr (heap_start s) bs k"

lemma hint_at_exists: "heap_core s bs \<Longrightarrow> \<exists>k. hint_at s bs k"
  by (erule heap_core_hint) (auto simp: hint_at_def)

lemma kmalloc_locked_none:
  assumes core: "heap_core s bs" and hint: "hint_at s bs k"
    and nf: "next_fit n k bs = None"
  shows "kmalloc_locked n s = Some (NULL, s\<lparr>heap_search_hint := blk_addr (heap_start s) bs k\<rparr>)"
proof -
  note c = heap_coreD [OF core]
  have k: "k < length bs" using hint by (simp add: hint_at_def)
  have "kmalloc_search (mem s) (heap_start s) (blk_addr (heap_start s) bs k) n
      (blk_addr (heap_start s) bs k) False = Some NULL"
    using search_next_fit [OF c(1-3) k k, of n] nf by (simp add: next_fit_def found_addr_def)
  with hint show ?thesis by (auto simp: kmalloc_locked_def hint_at_def split: if_splits)
qed

lemma alloc_blk_nth: "j < length bs \<Longrightarrow> snd (alloc_blk n j bs ! j) = False"
  by (simp add: alloc_blk_def carve_def nth_append)

lemma kmalloc_locked_some:
  fixes n :: u32 and s :: "'a memory_state_scheme"
  assumes core: "heap_core s bs" and hint: "hint_at s bs k"
    and nf: "next_fit n k bs = Some j"
  defines "p \<equiv> heap_start s"
  defines "bs' \<equiv> alloc_blk n j bs"
  defines "q \<equiv> blk_addr p bs j"
  shows "kmalloc_locked n s = Some (payload p bs j,
    s\<lparr>mem := set_is_free q 0 (split_block_if_needed q n (mem s)),
      total_allocated := total_allocated s + fst (bs' ! j),
      heap_search_hint := (if Suc j < length bs' then blk_addr p bs' (Suc j) else p)\<rparr>)"
proof -
  note c = heap_coreD [OF core]
  have k: "k < length bs" using hint by (simp add: hint_at_def)
  have j: "j < length bs" using next_fit_Some [OF nf] k by simp
  let ?m = "set_is_free q 0 (split_block_if_needed q n (mem s))"
  have found: "kmalloc_search (mem s) p (blk_addr p bs k) n (blk_addr p bs k) False = Some q"
    using search_next_fit [OF c(1-3) k k, of n] nf
    by (simp add: next_fit_def found_addr_def q_def p_def)
  have q: "q \<noteq> NULL" unfolding q_def p_def by (rule blk_addr_nonnull [OF c(3,2)])
  have j': "j < length bs'" using alloc_blk_length [OF j, of n] j by (simp add: bs'_def)
  have ext: "unat p + extent bs' < 18446744073709551616"
    using c(3) j by (simp add: bs'_def p_def)
  have "hchain ?m p bs' NULL"
    unfolding q_def p_def bs'_def by (rule alloc_memory(1) [OF core j])
  from hchain_nth [OF this j']
  have h: "hdr_at ?m q (bs' ! j) (if Suc j < length bs' then blk_addr p bs' (Suc j) else NULL)"
    using alloc_blk_addr [of j bs j p n] j by (simp add: q_def bs'_def)
  have "blk_addr p bs' (Suc j) \<noteq> NULL"
    using c(2) ext by (intro blk_addr_nonnull) (simp_all add: p_def)
  with h have hd: "blk_size ?m q = fst (bs' ! j)"
    "(if blk_next ?m q \<noteq> NULL then blk_next ?m q else p) =
     (if Suc j < length bs' then blk_addr p bs' (Suc j) else p)"
    by (auto simp: hdr_at_def)
  show ?thesis
    using hint found q hd
    by (auto simp: kmalloc_locked_def hint_at_def p_def payload_def q_def sizeof_memory_block_def Let_def)
qed

lemma coalesced_Cons:
  "coalesced (b # bs) \<longleftrightarrow> coalesced bs \<and> (bs \<noteq> [] \<longrightarrow> \<not> (snd b \<and> snd (hd bs)))"
  by (cases bs) auto

lemma coalesced_append:
  "coalesced (xs @ ys) \<longleftrightarrow>
     coalesced xs \<and> coalesced ys \<and> (xs \<noteq> [] \<and> ys \<noteq> [] \<longrightarrow> \<not> (snd (last xs) \<and> snd (hd ys)))"
proof (induction xs)
  case (Cons x xs)
  then show ?case by (cases "xs = []") (auto simp: coalesced_Cons hd_append)
qed auto

lemma alloc_blk_coalesced:
  assumes "coalesced bs" and "j < length bs" and "snd (bs ! j)"
  shows "coalesced (alloc_blk n j bs)"
proof -
  have "coalesced (take j bs @ bs ! j # drop (Suc j) bs)"
    using assms(1) nth_split [OF assms(2)] by simp
  with assms(3) show ?thesis
    by (auto simp: alloc_blk_def carve_def coalesced_append coalesced_Cons)
qed

lemma used_sum_split:
  "j < length bs \<Longrightarrow> used_sum bs = used_sum (take j bs) + used_sum [bs ! j] + used_sum (drop (Suc j) bs)"
  by (subst nth_split [of j bs]) (simp_all add: add.assoc del: sum_simps(5), simp)

lemma alloc_blk_used:
  assumes "j < length bs" and "snd (bs ! j)"
  shows "used_sum (alloc_blk n j bs) = used_sum bs + fst (alloc_blk n j bs ! j)"
  using assms used_sum_split [OF assms(1)]
  by (simp add: alloc_blk_def carve_def nth_append)

text \<open>The state inside the critical section.\<close>

definition enter_heap :: "'a memory_state_scheme \<Rightarrow> 'a memory_state_scheme" where
  "enter_heap s = s\<lparr>rflags := rflags s AND NOT (push_bit 9 1), heap_lock := 1\<rparr>"

lemma enter_heap_fields [simp]:
  "mem (enter_heap s) = mem s" "heap_start (enter_heap s) = heap_start s"
  "heap_search_hint (enter_heap s) = heap_search_hint s"
  "total_allocated (enter_heap s) = total_allocated s" "total_freed (enter_heap s) = total_freed s"
  "heap_core (enter_heap s) bs = heap_core s bs" "hint_at (enter_heap s) bs k = hint_at s bs k"
  by (simp_all add: enter_heap_def heap_core_def hint_at_def)

lemma enter_heap_update [simp]:
  "mem_update f (enter_heap s) = enter_heap (mem_update f s)"
  "heap_search_hint_update g (enter_heap s) = enter_heap (heap_search_hint_update g s)"
  "total_allocated_update h (enter_heap s) = enter_heap (total_allocated_update h s)"
  "total_freed_update h (enter_heap s) = enter_heap (total_freed_update h s)"
  by (simp_all add: enter_heap_def)

lemma enter_heap [simp]:
  "heap_lock s = 0 \<Longrightarrow>
   lock_heap (s\<lparr>rflags := rflags s AND NOT (push_bit 9 1)\<rparr>) = Some (enter_heap s)"
  by (simp add: lock_heap_def enter_heap_def)

lemma leave_heap [simp]:
  "heap_lock s = 0 \<Longrightarrow> f = rflags s \<Longrightarrow> irq_restore f (unlock_heap (enter_heap s)) = s"
  using irq_restore_saved [of "unlock_heap (enter_heap s)" f]
  by (simp add: unlock_heap_def enter_heap_def spin_unlock_def)

text \<open>With the lock free, \<open>kmalloc\<close> is its critical section and the failure message.\<close>

lemma kmalloc_sequential:
  assumes "heap_ready s bs" and "n \<noteq> 0"
  shows "kmalloc n s = do {
     (p, t) \<leftarrow> kmalloc_locked (align_up n MIN_ALLOC_ALIGN) (enter_heap s);
     let t = irq_restore (rflags s) (unlock_heap t);
     if p \<noteq> NULL then Some (p, t)
     else Some (NULL, msg '' bytes)'' (serial_write_uint32 (align_up n MIN_ALLOC_ALIGN)
       (serial_write_string ''[OS] [Memory] kmalloc: Out of memory (requested '' t)))
   }"
proof -
  have "heap_initialized s \<noteq> 0" "heap_lock s = 0"
    using assms by (simp_all add: heap_ready_def heap_core_def)
  then show ?thesis
    using assms(2) enter_heap [of s] by (simp add: kmalloc_def irq_save_disable_def Let_def cong: if_cong)
qed

lemma kmalloc_none:
  assumes inv: "heap_ready s bs" and hint: "hint_at s bs k" and n: "n \<noteq> 0"
    and nf: "next_fit (align_up n MIN_ALLOC_ALIGN) k bs = None"
  shows "\<exists>out. kmalloc n s = Some (NULL,
     s\<lparr>heap_search_hint := blk_addr (heap_start s) bs k, serial_out := serial_out s @ out\<rparr>)"
proof -
  from inv have core: "heap_core (enter_heap s) bs" and lck: "heap_lock s = 0"
    by (simp_all add: heap_ready_def)
  have "kmalloc_locked (align_up n MIN_ALLOC_ALIGN) (enter_heap s) =
      Some (NULL, enter_heap (s\<lparr>heap_search_hint := blk_addr (heap_start s) bs k\<rparr>))"
    using kmalloc_locked_none [OF core _ nf] hint by simp
  then show ?thesis
    using lck by (simp add: kmalloc_sequential [OF inv n] serial_simps) (rule exI, rule refl)
qed

lemma payload_nonnull:
  assumes "heap_core s bs" and "j < length bs"
  shows "payload (heap_start s) bs j \<noteq> NULL"
proof
  let ?p = "heap_start s"
  note c = heap_coreD [OF assms(1)]
  assume "payload ?p bs j = NULL"
  moreover have "unat (blk_addr ?p bs j) + 16 < 18446744073709551616"
    using blk_addr_less [OF c(3), of j "length bs"] assms(2) c(3)
    by (simp add: unat_blk_addr [OF c(3)] blk_extent_def)
  then have "unat (payload ?p bs j) = unat (blk_addr ?p bs j) + 16"
    unfolding payload_def by (subst unat_add_noof) simp_all
  ultimately show False by simp
qed

lemma kmalloc_some:
  fixes n :: u32 and s :: "'a memory_state_scheme"
  assumes inv: "heap_ready s bs" and hint: "hint_at s bs k" and n: "n \<noteq> 0"
    and nf: "next_fit (align_up n MIN_ALLOC_ALIGN) k bs = Some j"
  defines "p \<equiv> heap_start s"
  defines "bs' \<equiv> alloc_blk (align_up n MIN_ALLOC_ALIGN) j bs"
  defines "q \<equiv> blk_addr p bs j"
  shows "kmalloc n s = Some (payload p bs j,
    s\<lparr>mem := set_is_free q 0 (split_block_if_needed q (align_up n MIN_ALLOC_ALIGN) (mem s)),
      total_allocated := total_allocated s + fst (bs' ! j),
      heap_search_hint := (if Suc j < length bs' then blk_addr p bs' (Suc j) else p)\<rparr>)"
proof -
  from inv have core: "heap_core (enter_heap s) bs" and core': "heap_core s bs"
    and lck: "heap_lock s = 0"
    by (simp_all add: heap_ready_def)
  have "j < length bs"
    using next_fit_Some [OF nf] hint by (simp add: hint_at_def)
  then have "payload p bs j \<noteq> NULL"
    unfolding p_def by (rule payload_nonnull [OF core'])
  then show ?thesis
    using lck kmalloc_locked_some [OF core _ nf] hint
    by (simp add: kmalloc_sequential [OF inv n] p_def bs'_def q_def)
qed

lemma alloc_keeps_inv:
  fixes n :: u32 and s :: "'a memory_state_scheme"
  assumes inv: "heap_inv s bs" and k: "k < length bs"
    and nf: "next_fit n k bs = Some j" and n: "8 dvd unat n"
  defines "p \<equiv> heap_start s"
  defines "bs' \<equiv> alloc_blk n j bs"
  defines "q \<equiv> blk_addr p bs j"
  shows "heap_inv (s\<lparr>mem := set_is_free q 0 (split_block_if_needed q n (mem s)),
      total_allocated := total_allocated s + fst (bs' ! j),
      heap_search_hint := (if Suc j < length bs' then blk_addr p bs' (Suc j) else p)\<rparr>) bs'"
proof -
  from next_fit_Some [OF nf] k have j: "j < length bs" and fr: "snd (bs ! j)" by simp_all
  from inv have core: "heap_core s bs" by (simp add: heap_inv_def heap_ready_def)
  have chain: "hchain (set_is_free q 0 (split_block_if_needed q n (mem s))) p bs' NULL"
    unfolding q_def p_def bs'_def by (rule alloc_memory(1) [OF core j])
  have ne: "bs' \<noteq> []" using alloc_blk_length [OF j, of n] j by (auto simp: bs'_def)
  have sizes: "\<forall>b \<in> set bs'. 8 dvd unat (fst b)"
    using core n j unfolding bs'_def heap_core_def by (intro alloc_blk_aligned) auto
  have "\<exists>k < length bs'. (if Suc j < length bs' then blk_addr p bs' (Suc j) else p) =
      blk_addr p bs' k"
    using ne by (auto intro: exI [of _ "Suc j"] exI [of _ 0])
  then show ?thesis
    using inv chain ne sizes alloc_blk_coalesced [of bs j n] alloc_blk_used [OF j fr, of n] j fr
    by (simp add: heap_inv_def heap_ready_def heap_core_def p_def bs'_def)
qed


subsection \<open>Release\<close>

text \<open>The list after merging a free block with the free block behind it, and with the one before it.\<close>

fun merge_next :: "blk \<Rightarrow> blk list \<Rightarrow> blk list" where
  "merge_next b [] = [b]"
| "merge_next b (c # cs) = (if snd c then join_blk b c # cs else b # c # cs)"

definition merge_prev :: "blk list \<Rightarrow> blk list \<Rightarrow> blk list" where
  "merge_prev as r =
     (if as \<noteq> [] \<and> snd (last as) then butlast as @ join_blk (last as) (hd r) # tl r else as @ r)"

definition free_blk :: "nat \<Rightarrow> blk list \<Rightarrow> blk list" where
  "free_blk j bs = merge_prev (take j bs) (merge_next (fst (bs ! j), True) (drop (Suc j) bs))"

definition free_index :: "nat \<Rightarrow> blk list \<Rightarrow> nat" where
  "free_index j bs = (if j \<noteq> 0 \<and> snd (bs ! (j - 1)) then j - 1 else j)"

definition free_next :: "ptr \<Rightarrow> memory \<Rightarrow> memory" where
  "free_next q m =
     (if blk_next m q \<noteq> NULL \<and> blk_is_free m (blk_next m q) \<noteq> 0
      then absorb_block q (blk_next m q) m else m)"

definition free_prev :: "ptr \<Rightarrow> ptr \<Rightarrow> memory \<Rightarrow> memory" where
  "free_prev prev q m =
     (if prev \<noteq> NULL \<and> blk_is_free m prev \<noteq> 0 then absorb_block prev q m else m)"

lemma adv_nonnull:
  assumes "unat p + extent bs < 18446744073709551616" and "p \<noteq> NULL"
  shows "adv p bs \<noteq> NULL"
proof -
  have "unat p \<noteq> 0" using assms(2) by (simp add: unat_eq_0)
  then have "unat (adv p bs) \<noteq> 0" using unat_adv [OF assms(1)] by linarith
  then show ?thesis by (metis unat_0)
qed

lemma absorb_outside: "x \<notin> span b 16 \<Longrightarrow> absorb_block b c m x = m x"
  by (simp add: absorb_block_def mem_simps Let_def)

lemma free_next_hchain:
  assumes chain: "hchain m p (as @ b # cs) NULL" and nn: "p \<noteq> NULL"
    and noof: "unat p + extent (as @ b # cs) < 18446744073709551616"
    and small: "extent (as @ b # cs) < 4294967296"
  shows "hchain (free_next (adv p as) m) p (as @ merge_next b cs) NULL"
proof (cases cs)
  case Nil
  with hchain_mid [OF chain] chain show ?thesis by (simp add: free_next_def hdr_at_def)
next
  case (Cons c cs')
  let ?q = "adv p as" and ?r = "after_blk (adv p as) b"
  have r: "blk_next m ?q = ?r"
    using hchain_mid [OF chain] Cons by (simp add: hdr_at_def)
  have "adv p (as @ [b]) \<noteq> NULL"
    using noof Cons by (intro adv_nonnull [OF _ nn]) simp
  then have rn: "?r \<noteq> NULL" by simp
  have "blk_is_free m ?r = of_bool (snd c)"
    using hchain_mid [of m p "as @ [b]" c cs' NULL] chain Cons by (simp add: hdr_at_def)
  with r rn show ?thesis
    using hchain_absorb [of m p as b c cs' NULL] chain noof small Cons
    by (simp add: free_next_def)
qed

lemma free_prev_hchain:
  assumes chain: "hchain m p (as @ r # rs) NULL" and nn: "p \<noteq> NULL"
    and noof: "unat p + extent (as @ r # rs) < 18446744073709551616"
    and small: "extent (as @ r # rs) < 4294967296"
    and prev: "prev = (if as = [] then NULL else adv p (butlast as))"
  shows "hchain (free_prev prev (adv p as) m) p (merge_prev as (r # rs)) NULL"
proof (cases as rule: rev_cases)
  case Nil
  then show ?thesis using chain prev by (simp add: free_prev_def merge_prev_def)
next
  case (snoc as' a)
  have "adv p as' \<noteq> NULL" using noof snoc by (intro adv_nonnull [OF _ nn]) simp
  then have pn: "prev \<noteq> NULL" "prev = adv p as'" using prev snoc by simp_all
  have "blk_is_free m prev = of_bool (snd a)"
    using hchain_mid [of m p as' a "r # rs" NULL] chain snoc pn by (simp add: hdr_at_def)
  then show ?thesis
    using hchain_absorb [of m p as' a r rs NULL] chain noof small snoc pn
    by (simp add: free_prev_def merge_prev_def)
qed

lemma merge_next_extent:
  "extent (b # cs) < 4294967296 \<Longrightarrow> extent (merge_next b cs) = extent (b # cs)"
  using join_blk_size(1) [of b "hd cs"] by (cases cs) auto

lemma merge_next_Cons: "\<exists>r rs. merge_next b cs = r # rs \<and> snd r = snd b"
  by (cases cs; cases b) (auto simp: join_blk_def)

lemma merge_prev_extent:
  assumes "extent (as @ r) < 4294967296" and "r \<noteq> []"
  shows "extent (merge_prev as r) = extent (as @ r)"
  using join_blk_size(1) [of "last as" "hd r"] assms
  by (cases as rule: rev_cases; cases r) (auto simp: merge_prev_def)

lemma free_blk_extent:
  assumes "j < length bs" and "extent bs < 4294967296"
  shows "extent (free_blk j bs) = extent bs"
proof -
  let ?b = "(fst (bs ! j), True)" and ?cs = "drop (Suc j) bs" and ?as = "take j bs"
  have e: "extent bs = extent (?as @ ?b # ?cs)"
    by (subst nth_split [OF assms(1)]) simp
  have "extent (merge_next ?b ?cs) = extent (?b # ?cs)"
    using assms(2) e by (intro merge_next_extent) simp
  moreover obtain r rs where "merge_next ?b ?cs = r # rs" using merge_next_Cons by blast
  ultimately show ?thesis
    using merge_prev_extent [of ?as "merge_next ?b ?cs"] assms(2) e by (simp add: free_blk_def)
qed

lemma free_blk_used:
  assumes "j < length bs" and "\<not> snd (bs ! j)"
  shows "used_sum (free_blk j bs) = used_sum bs - fst (bs ! j)"
proof -
  have n: "used_sum (merge_next b cs) = used_sum (b # cs)" if "snd b" for b cs
    using that by (cases cs) (auto simp: join_blk_def)
  have p: "used_sum (merge_prev as r) = used_sum (as @ r)" if "r \<noteq> []" "snd (hd r)" for as r
    using that by (cases as rule: rev_cases; cases r) (auto simp: merge_prev_def join_blk_def)
  obtain r rs where r: "merge_next (fst (bs ! j), True) (drop (Suc j) bs) = r # rs" "snd r"
    using merge_next_Cons [of "(fst (bs ! j), True)" "drop (Suc j) bs"] by (metis snd_conv)
  then have "used_sum (r # rs) = used_sum (drop (Suc j) bs)"
    using n [of "(fst (bs ! j), True)" "drop (Suc j) bs"] by simp
  then show ?thesis
    using used_sum_split [OF assms(1)] assms(2) p [of "r # rs" "take j bs"] r
    by (simp add: free_blk_def)
qed

lemma free_blk_coalesced:
  assumes "coalesced bs" and "j < length bs"
  shows "coalesced (free_blk j bs)"
proof -
  have n: "coalesced (merge_next b cs)" if "coalesced cs" "snd b" for b cs
    using that by (cases cs) (auto simp: join_blk_def coalesced_Cons)
  have p: "coalesced (merge_prev as r)" if "coalesced as" "coalesced r" "r \<noteq> []" "snd (hd r)" for as r
    using that
    by (cases as rule: rev_cases; cases r)
      (auto simp: merge_prev_def join_blk_def coalesced_append coalesced_Cons)
  obtain r rs where r: "merge_next (fst (bs ! j), True) (drop (Suc j) bs) = r # rs" "snd r"
    using merge_next_Cons [of "(fst (bs ! j), True)" "drop (Suc j) bs"] by (metis snd_conv)
  have c: "coalesced (take j bs)" "coalesced (drop (Suc j) bs)"
    using assms(1) nth_split [OF assms(2)]
    by (metis coalesced_append, metis coalesced_append coalesced_Cons)
  show ?thesis
    using p [OF c(1), of "r # rs"] n [OF c(2), of "(fst (bs ! j), True)"] r
    by (simp add: free_blk_def)
qed


lemma free_blk_aligned:
  assumes "\<forall>b \<in> set bs. 8 dvd unat (fst b)" and "j < length bs" and "extent bs < 4294967296"
  shows "\<forall>b \<in> set (free_blk j bs). 8 dvd unat (fst b)"
proof -
  have join: "8 dvd unat (fst (join_blk b c))"
    if "8 dvd unat (fst b)" "8 dvd unat (fst c)" "unat (fst b) + 16 + unat (fst c) < 4294967296" for b c
    using that by (simp add: join_blk_size(1))
  have n: "\<forall>x \<in> set (merge_next b cs). 8 dvd unat (fst x)"
    if "\<forall>x \<in> set (b # cs). 8 dvd unat (fst x)" "extent (b # cs) < 4294967296" for b cs
    using that join [of b "hd cs"] by (cases cs) auto
  have p: "\<forall>x \<in> set (merge_prev as r). 8 dvd unat (fst x)"
    if "\<forall>x \<in> set (as @ r). 8 dvd unat (fst x)" "extent (as @ r) < 4294967296" "r \<noteq> []" for as r
    using that join [of "last as" "hd r"]
    by (cases as rule: rev_cases; cases r) (auto simp: merge_prev_def)
  let ?b = "(fst (bs ! j), True)" and ?cs = "drop (Suc j) bs" and ?as = "take j bs"
  have e: "extent bs = extent (?as @ ?b # ?cs)"
    by (subst nth_split [OF assms(2)]) simp
  have s: "\<forall>x \<in> set (?as @ ?b # ?cs). 8 dvd unat (fst x)"
    using assms(1,2) by (auto dest: in_set_takeD in_set_dropD)
  obtain r rs where r: "merge_next ?b ?cs = r # rs" using merge_next_Cons by blast
  have "extent (?b # ?cs) < 4294967296" using e assms(3) by simp
  with n [of ?b ?cs] merge_next_extent [of ?b ?cs] s
  have "\<forall>x \<in> set (r # rs). 8 dvd unat (fst x)" "extent (r # rs) = extent (?b # ?cs)"
    unfolding r by simp_all
  then have "\<forall>x \<in> set (merge_prev ?as (r # rs)). 8 dvd unat (fst x)"
    using s e assms(3) by (intro p) (simp_all add: ball_Un)
  then show ?thesis by (simp only: free_blk_def r)
qed

text \<open>The memory after releasing block \<open>j\<close>.\<close>

definition freed_mem :: "ptr \<Rightarrow> blk list \<Rightarrow> nat \<Rightarrow> memory \<Rightarrow> memory" where
  "freed_mem p bs j m =
     free_prev (prev_addr p bs j) (blk_addr p bs j)
       (free_next (blk_addr p bs j) (set_is_free (blk_addr p bs j) 1 m))"

lemma free_next_mem_hchain:
  fixes s :: "'a memory_state_scheme"
  assumes core: "heap_core s bs" and j: "j < length bs"
  defines "q \<equiv> blk_addr (heap_start s) bs j"
  shows "hchain (free_next q (set_is_free q 1 (mem s))) (heap_start s)
      (take j bs @ merge_next (fst (bs ! j), True) (drop (Suc j) bs)) NULL"
    and "extent (take j bs @ merge_next (fst (bs ! j), True) (drop (Suc j) bs)) = extent bs"
proof -
  let ?p = "heap_start s" and ?as = "take j bs" and ?cs = "drop (Suc j) bs"
  let ?b = "(fst (bs ! j), True)"
  note c = heap_coreD [OF core]
  have e: "extent (?as @ ?b # ?cs) = extent bs"
    by (subst (3) nth_split [OF j]) simp
  have "hchain (mem s) ?p (?as @ (fst (bs ! j), snd (bs ! j)) # ?cs) NULL"
    using c(1) nth_split [OF j] by simp
  then have "hchain (set_is_free (adv ?p ?as) (of_bool True) (mem s)) ?p (?as @ ?b # ?cs) NULL"
    using c(3) e by (intro hchain_set_is_free [where f = "snd (bs ! j)"]) simp_all
  then show "hchain (free_next q (set_is_free q 1 (mem s))) ?p (?as @ merge_next ?b ?cs) NULL"
    unfolding q_def blk_addr_def using c e by (intro free_next_hchain) simp_all
  show "extent (?as @ merge_next ?b ?cs) = extent bs"
    using merge_next_extent [of ?b ?cs] e c(5) by simp
qed

lemma freed_mem_hchain:
  assumes core: "heap_core s bs" and j: "j < length bs"
  shows "hchain (freed_mem (heap_start s) bs j (mem s)) (heap_start s) (free_blk j bs) NULL"
proof -
  let ?p = "heap_start s" and ?as = "take j bs"
  note c = heap_coreD [OF core]
  obtain r rs where r: "merge_next (fst (bs ! j), True) (drop (Suc j) bs) = r # rs"
    using merge_next_Cons by blast
  have "butlast ?as = take (j - 1) bs" using j by (simp add: butlast_take)
  then have "prev_addr ?p bs j = (if ?as = [] then NULL else adv ?p (butlast ?as))"
    using j by (auto simp: prev_addr_def blk_addr_def)
  then show ?thesis
    unfolding freed_mem_def free_blk_def r blk_addr_def [of _ _ j]
    using free_next_mem_hchain [OF core j] c
    by (intro free_prev_hchain) (simp_all add: r blk_addr_def)
qed

lemma freed_mem_outside:
  assumes "x \<notin> span (blk_addr p bs j) 16"
    and "prev_addr p bs j \<noteq> NULL \<Longrightarrow> x \<notin> span (prev_addr p bs j) 16"
  shows "freed_mem p bs j m x = m x"
  using assms
  by (simp add: freed_mem_def free_prev_def free_next_def absorb_outside mem_simps)

lemma free_blk_addr:
  assumes "j < length bs"
  shows "blk_addr p (free_blk j bs) (free_index j bs) = blk_addr p bs (free_index j bs)"
    and "free_index j bs < length (free_blk j bs)"
proof -
  obtain r rs where r: "merge_next (fst (bs ! j), True) (drop (Suc j) bs) = r # rs"
    using merge_next_Cons by blast
  then have "blk_addr p (free_blk j bs) (free_index j bs) = blk_addr p bs (free_index j bs) \<and>
      free_index j bs < length (free_blk j bs)"
  proof (cases j)
    case (Suc i)
    then have "take j bs = take i bs @ [bs ! i]"
      using assms by (simp add: take_Suc_conv_app_nth)
    with Suc r assms show ?thesis
      by (cases "snd (bs ! i)")
        (simp_all add: free_blk_def merge_prev_def free_index_def blk_addr_def)
  qed (simp add: free_blk_def merge_prev_def free_index_def)
  then show "blk_addr p (free_blk j bs) (free_index j bs) = blk_addr p bs (free_index j bs)"
    "free_index j bs < length (free_blk j bs)"
    by simp_all
qed

lemma payload_range:
  assumes core: "heap_core s bs" and j: "j < length bs"
  shows "unat (payload (heap_start s) bs j) = unat (blk_addr (heap_start s) bs j) + 16"
    and "unat (heap_start s) + 16 \<le> unat (payload (heap_start s) bs j)"
    and "unat (payload (heap_start s) bs j) + unat (fst (bs ! j)) \<le> unat (heap_start s) + 16777216"
proof -
  let ?p = "heap_start s"
  note c = heap_coreD [OF core]
  have e: "unat (blk_addr ?p bs j) + blk_extent (bs ! j) \<le> unat ?p + extent bs"
    using blk_addr_less [OF c(3), of j "length bs"] j by (simp add: unat_blk_addr [OF c(3)])
  then show 1: "unat (payload ?p bs j) = unat (blk_addr ?p bs j) + 16"
    unfolding payload_def using c(3) by (subst unat_add_noof) (simp_all add: blk_extent_def)
  then show "unat ?p + 16 \<le> unat (payload ?p bs j)"
    by (simp add: unat_blk_addr [OF c(3)])
  show "unat (payload ?p bs j) + unat (fst (bs ! j)) \<le> unat ?p + 16777216"
    using e 1 c(5) by (simp add: blk_extent_def)
qed

lemma kfree_accepts:
  assumes core: "heap_core s bs" and j: "j < length bs"
  shows "\<not> payload (heap_start s) bs j < heap_start s + sizeof_memory_block"
    and "fst (bs ! j) \<noteq> 0 \<Longrightarrow>
      \<not> heap_start s + HEAP_PAGE_COUNT * PAGE_SIZE \<le> payload (heap_start s) bs j"
proof -
  have noof: "unat (heap_start s) + 16777216 < 18446744073709551616"
    using core by (simp add: heap_core_def)
  have 1: "unat (heap_start s + sizeof_memory_block) = unat (heap_start s) + 16"
    unfolding sizeof_memory_block_def using noof by (subst unat_add_noof) simp_all
  have 2: "unat (heap_start s + HEAP_PAGE_COUNT * PAGE_SIZE) = unat (heap_start s) + 16777216"
    unfolding HEAP_PAGE_COUNT_def PAGE_SIZE_def using noof by (subst unat_add_noof) simp_all
  show "\<not> payload (heap_start s) bs j < heap_start s + sizeof_memory_block"
    using payload_range [OF core j] 1 unfolding word_less_nat_alt by linarith
  assume "fst (bs ! j) \<noteq> 0"
  then have "unat (fst (bs ! j)) \<noteq> 0" by (simp add: unat_eq_0)
  then show "\<not> heap_start s + HEAP_PAGE_COUNT * PAGE_SIZE \<le> payload (heap_start s) bs j"
    using payload_range [OF core j] 2 unfolding word_le_nat_alt by linarith
qed

text \<open>With the lock free, \<open>kfree\<close> on a pointer into the heap is its critical section.\<close>

lemma kfree_sequential:
  assumes ready: "heap_ready s bs" and "p \<noteq> NULL"
    and "\<not> p < heap_start s + sizeof_memory_block"
    and "\<not> heap_start s + HEAP_PAGE_COUNT * PAGE_SIZE \<le> p"
  shows "kfree p s = do {
     (block, prev) \<leftarrow> find_block_by_payload p (enter_heap s);
     if block = NULL then Some (msg ''[OS] [Memory] kfree: Pointer not tracked'' s)
     else if blk_is_free (mem s) block \<noteq> 0
     then Some (msg ''[OS] [Memory] kfree: Double free detected'' s)
     else let m = free_next block (set_is_free block 1 (mem s))
          in Some (s\<lparr>mem := free_prev prev block m,
                    total_freed := total_freed s + blk_size (mem s) block,
                    heap_search_hint :=
                      (if prev \<noteq> NULL \<and> blk_is_free m prev \<noteq> 0 then prev else block)\<rparr>)
   }"
proof -
  have "heap_initialized s \<noteq> 0" "heap_lock s = 0" "heap_start s \<noteq> NULL"
    using ready by (simp_all add: heap_ready_def heap_core_def)
  with assms(2-4) enter_heap [of s] show ?thesis
    by (auto simp: kfree_def irq_save_disable_def Let_def free_next_def free_prev_def mem_simps
        intro!: arg_cong [where f = "Option.bind (find_block_by_payload p (enter_heap s))"])
qed

lemma kfree_payload:
  fixes s :: "'a memory_state_scheme"
  assumes ready: "heap_ready s bs" and j: "j < length bs" and used: "\<not> snd (bs ! j)"
    and inside: "\<not> heap_start s + HEAP_PAGE_COUNT * PAGE_SIZE \<le> payload (heap_start s) bs j"
  defines "p \<equiv> heap_start s"
  shows "kfree (payload p bs j) s = Some (s\<lparr>mem := freed_mem p bs j (mem s),
      total_freed := total_freed s + fst (bs ! j),
      heap_search_hint := blk_addr p bs (free_index j bs)\<rparr>)"
proof -
  from ready have core: "heap_core (enter_heap s) bs" and core': "heap_core s bs"
    and lck: "heap_lock s = 0"
    by (simp_all add: heap_ready_def)
  note c = heap_coreD [OF core']
  let ?q = "blk_addr p bs j" and ?prev = "prev_addr p bs j"
  have h: "blk_size (mem s) ?q = fst (bs ! j)" "blk_is_free (mem s) ?q = 0"
    using hchain_nth [OF c(1) j] used by (simp_all add: hdr_at_def p_def)
  have qn: "?q \<noteq> NULL" unfolding p_def by (rule blk_addr_nonnull [OF c(3,2)])
  have find: "find_block_by_payload (payload p bs j) (enter_heap s) = Some (?q, ?prev)"
    using find_block_payload [of "enter_heap s" bs j] c j by (simp add: p_def)
  have rng: "payload p bs j \<noteq> NULL" "\<not> payload p bs j < p + sizeof_memory_block"
    "\<not> p + HEAP_PAGE_COUNT * PAGE_SIZE \<le> payload p bs j"
    using payload_nonnull [OF core' j] kfree_accepts(1) [OF core' j] inside by (simp_all add: p_def)
  have prev: "(?prev \<noteq> NULL \<and> blk_is_free (free_next ?q (set_is_free ?q 1 (mem s))) ?prev \<noteq> 0)
      \<longleftrightarrow> free_index j bs \<noteq> j"
  proof (cases j)
    case (Suc i)
    let ?bs = "take j bs @ merge_next (fst (bs ! j), True) (drop (Suc j) bs)"
    have "blk_addr p ?bs i = ?prev" "?bs ! i = bs ! i" "i < length ?bs"
      using Suc j by (simp_all add: blk_addr_def prev_addr_def nth_append)
    then have "blk_is_free (free_next ?q (set_is_free ?q 1 (mem s))) ?prev = of_bool (snd (bs ! i))"
      using hchain_nth [OF free_next_mem_hchain(1) [OF core' j], of i] by (simp add: hdr_at_def p_def)
    then show ?thesis
      using Suc blk_addr_nonnull [OF c(3,2), of i] by (simp add: free_index_def prev_addr_def p_def)
  qed (simp add: prev_addr_def free_index_def)
  have idx: "free_index j bs \<noteq> j \<Longrightarrow> blk_addr p bs (free_index j bs) = ?prev"
    by (simp add: free_index_def prev_addr_def split: if_splits)
  show ?thesis
    using h qn prev idx rng
    by (subst kfree_sequential [OF ready]) (auto simp: find [unfolded p_def] p_def freed_mem_def Let_def)
qed

lemma free_keeps_ready:
  fixes s :: "'a memory_state_scheme"
  assumes ready: "heap_ready s bs" and j: "j < length bs"
  shows "heap_ready (s\<lparr>mem := freed_mem (heap_start s) bs j (mem s), total_freed := f,
      heap_search_hint := blk_addr (heap_start s) bs (free_index j bs)\<rparr>) (free_blk j bs)"
proof -
  from ready have core: "heap_core s bs" and lck: "heap_lock s = 0"
    by (simp_all add: heap_ready_def)
  have ext: "extent bs < 4294967296" using heap_coreD(5) [OF core] by simp
  have "free_blk j bs \<noteq> []" using free_blk_addr(2) [OF j] by auto
  then show ?thesis
    using core lck freed_mem_hchain [OF core j] free_blk_extent [OF j ext]
      free_blk_aligned [OF _ j ext] free_blk_addr [OF j]
    by (auto simp: heap_ready_def heap_core_def intro!: exI [of _ "free_index j bs"])
qed

lemma free_keeps_inv:
  fixes s :: "'a memory_state_scheme"
  assumes inv: "heap_inv s bs" and j: "j < length bs" and used: "\<not> snd (bs ! j)"
  shows "heap_inv (s\<lparr>mem := freed_mem (heap_start s) bs j (mem s),
      total_freed := total_freed s + fst (bs ! j),
      heap_search_hint := blk_addr (heap_start s) bs (free_index j bs)\<rparr>) (free_blk j bs)"
  using inv free_keeps_ready [of s bs j] free_blk_coalesced [OF _ j] free_blk_used [OF j used] j
  by (simp add: heap_inv_def algebra_simps)

lemma kfree_double:
  assumes ready: "heap_ready s bs" and j: "j < length bs" and "snd (bs ! j)"
    and inside: "\<not> heap_start s + HEAP_PAGE_COUNT * PAGE_SIZE \<le> payload (heap_start s) bs j"
  shows "kfree (payload (heap_start s) bs j) s =
    Some (msg ''[OS] [Memory] kfree: Double free detected'' s)"
proof -
  let ?p = "heap_start s"
  from ready have core: "heap_core s bs" by (simp add: heap_ready_def)
  note c = heap_coreD [OF core]
  have "blk_is_free (mem s) (blk_addr ?p bs j) = 1"
    using hchain_nth [OF c(1) j] assms(3) by (simp add: hdr_at_def)
  moreover have "find_block_by_payload (payload ?p bs j) (enter_heap s) =
      Some (blk_addr ?p bs j, prev_addr ?p bs j)"
    using find_block_payload [of "enter_heap s" bs j] c j by simp
  ultimately show ?thesis
    using blk_addr_nonnull [OF c(3,2), of j] payload_nonnull [OF core j]
      kfree_accepts(1) [OF core j] inside
    by (simp add: kfree_sequential [OF ready])
qed

lemma kfree_untracked:
  assumes ready: "heap_ready s bs" and "p \<noteq> NULL"
    and "\<And>j. j < length bs \<Longrightarrow> payload (heap_start s) bs j \<noteq> p"
  shows "\<exists>out. kfree p s = Some (s\<lparr>serial_out := serial_out s @ out\<rparr>)"
proof -
  from ready have core: "heap_core s bs" by (simp add: heap_ready_def)
  note c = heap_coreD [OF core]
  have find: "find_block_by_payload p (enter_heap s) = Some (NULL, NULL)"
    using find_block_untracked [of "enter_heap s" bs p] c assms(3) by simp
  have init: "heap_initialized s \<noteq> 0" using core by (simp add: heap_core_def)
  show ?thesis
  proof (cases "p < heap_start s + sizeof_memory_block \<or>
      p \<ge> heap_start s + HEAP_PAGE_COUNT * PAGE_SIZE")
    case True
    then show ?thesis
      using assms(2) init c(2) by (simp add: kfree_def serial_simps) (rule exI, rule refl)
  next
    case False
    then show ?thesis
      using assms(2) find by (simp add: kfree_sequential [OF ready] serial_simps) (rule exI, rule refl)
  qed
qed

lemma heap_ready_cong:
  assumes "heap_ready s bs"
    and "heap_initialized t = heap_initialized s" "heap_start t = heap_start s"
      "heap_search_hint t = heap_search_hint s" "heap_lock t = heap_lock s"
      "hchain (mem t) (heap_start s) bs NULL"
  shows "heap_ready t bs"
  using assms by (simp add: heap_ready_def heap_core_def)

lemma heap_inv_serial [simp]:
  "heap_inv (s\<lparr>serial_out := x\<rparr>) bs = heap_inv s bs"
  "heap_ready (s\<lparr>serial_out := x\<rparr>) bs = heap_ready s bs"
  by (simp_all add: heap_inv_def heap_ready_def heap_core_def)

end
