(* ===== verification/Heap_Interface.thy ===== *)
theory Heap_Interface
  imports Heap_Correct
begin

text \<open>
  What the heap promises its clients. The blocks that are handed out form a set of
  pointers with sizes; \<open>kmalloc\<close> adds one block, \<open>kfree\<close> takes one away, the blocks never
  overlap, and neither touches the bytes of the others. The locale \<open>allocator\<close> states
  this contract and is interpreted on \<open>kmalloc\<close> and \<open>kfree\<close>.
\<close>

subsection \<open>The blocks handed out\<close>

primrec live_blocks :: "ptr \<Rightarrow> blk list \<Rightarrow> (ptr \<times> u32) set" where
  "live_blocks p [] = {}"
| "live_blocks p (b # bs) =
     (if snd b then {} else {(p + 16, fst b)}) \<union> live_blocks (after_blk p b) bs"

lemma live_append [simp]:
  "live_blocks p (as @ bs) = live_blocks p as \<union> live_blocks (adv p as) bs"
  by (induction as arbitrary: p) auto

lemma payload_Cons:
  "payload p (b # bs) 0 = p + 16" "payload p (b # bs) (Suc j) = payload (after_blk p b) bs j"
  by (simp_all add: payload_def blk_addr_def)

lemma live_blocks_iff:
  "(a, z) \<in> live_blocks p bs \<longleftrightarrow>
     (\<exists>j < length bs. \<not> snd (bs ! j) \<and> a = payload p bs j \<and> z = fst (bs ! j))"
proof (induction bs arbitrary: p)
  case (Cons b bs)
  then show ?case by (auto simp: payload_Cons less_Suc_eq_0_disj)
qed simp

lemma live_alloc:
  assumes noof: "unat p + extent bs < 18446744073709551616" and j: "j < length bs"
    and "snd (bs ! j)"
  shows "live_blocks p (alloc_blk n j bs) =
    insert (payload p bs j, fst (alloc_blk n j bs ! j)) (live_blocks p bs)"
proof -
  let ?q = "adv p (take j bs)" and ?b = "bs ! j"
  have bs: "bs = take j bs @ ?b # drop (Suc j) bs" by (rule nth_split [OF j])
  have "unat p + extent (take j bs @ ?b # drop (Suc j) bs) < 18446744073709551616"
    using noof by (subst (asm) bs)
  then have "unat ?q + extent (?b # drop (Suc j) bs) < 18446744073709551616"
    using unat_adv_prefix [of p "take j bs" "?b # drop (Suc j) bs"] by simp
  then have "adv ?q (carve n (fst ?b, False)) = adv ?q [?b]"
    by (intro adv_extent_eq) (simp_all add: blk_extent_def)
  moreover have "live_blocks ?q (carve n (fst ?b, False)) = {(?q + 16, fst (alloc_blk n j bs ! j))}"
    using j by (simp add: carve_def alloc_blk_def nth_append)
  moreover have "live_blocks p bs =
      live_blocks p (take j bs) \<union> live_blocks (after_blk ?q ?b) (drop (Suc j) bs)"
    by (subst bs) (simp add: assms(3))
  ultimately show ?thesis
    by (simp add: alloc_blk_def payload_def blk_addr_def Un_commute)
qed

lemma after_join:
  assumes "unat q + extent [b, c] < 18446744073709551616" and "extent [b, c] < 4294967296"
  shows "after_blk q (join_blk b c) = after_blk (after_blk q b) c"
  using adv_extent_eq [of "[join_blk b c]" "[b, c]" q] assms join_blk_size(1) [of b c] by simp

lemma live_merge_next:
  assumes "unat q + extent (b # cs) < 18446744073709551616" and "extent (b # cs) < 4294967296"
    and "snd b"
  shows "live_blocks q (merge_next b cs) = live_blocks (after_blk q b) cs"
  using assms after_join [of q b "hd cs"] by (cases cs) (auto simp: join_blk_def)

lemma live_merge_prev:
  assumes "unat p + extent (as @ r # rs) < 18446744073709551616"
    and "extent (as @ r # rs) < 4294967296" and "snd r"
  shows "live_blocks p (merge_prev as (r # rs)) = live_blocks p (as @ r # rs)"
proof (cases as rule: rev_cases)
  case (snoc as' a)
  have "unat (adv p as') + extent [a, r] < 18446744073709551616"
    using assms(1) snoc unat_adv_prefix [of p as' "a # r # rs"] by simp
  then show ?thesis
    using snoc assms after_join [of "adv p as'" a r]
    by (simp add: merge_prev_def) (simp add: join_blk_def)
qed (simp add: merge_prev_def)

lemma live_free:
  assumes core: "heap_core s bs" and j: "j < length bs" and used: "\<not> snd (bs ! j)"
  shows "live_blocks (heap_start s) (free_blk j bs) =
    live_blocks (heap_start s) bs - {(payload (heap_start s) bs j, fst (bs ! j))}"
proof -
  let ?p = "heap_start s" and ?as = "take j bs" and ?cs = "drop (Suc j) bs"
  let ?b = "(fst (bs ! j), True)" and ?q = "adv (heap_start s) (take j bs)"
  note c = heap_coreD [OF core]
  obtain r rs where r: "merge_next ?b ?cs = r # rs" "snd r"
    using merge_next_Cons [of ?b ?cs] by (metis snd_conv)
  have e: "extent (?as @ r # rs) = extent bs"
    using free_next_mem_hchain(2) [OF core j] by (simp add: r)
  have e': "extent (?as @ ?b # ?cs) = extent bs"
    by (subst (3) nth_split [OF j]) simp
  have "live_blocks ?p (free_blk j bs) = live_blocks ?p ?as \<union> live_blocks ?q (merge_next ?b ?cs)"
    unfolding free_blk_def r(1) using live_merge_prev [of ?p ?as r rs] c e r(2) by simp
  moreover have "live_blocks ?q (merge_next ?b ?cs) = live_blocks (after_blk ?q ?b) ?cs"
    using c(3,5) e' unat_adv_prefix [of ?p ?as "?b # ?cs"]
    by (intro live_merge_next) simp_all
  ultimately have l: "live_blocks ?p (free_blk j bs) =
      live_blocks ?p ?as \<union> live_blocks (after_blk ?q (bs ! j)) ?cs"
    by (simp add: after_blk_def)
  have whole: "live_blocks ?p bs =
      insert (payload ?p bs j, fst (bs ! j)) (live_blocks ?p (free_blk j bs))"
    unfolding l by (subst nth_split [OF j]) (auto simp: used payload_def blk_addr_def)
  have "(payload ?p bs j, fst (bs ! j)) \<notin> live_blocks ?p ?as"
  proof
    assume "(payload ?p bs j, fst (bs ! j)) \<in> live_blocks ?p ?as"
    then obtain i where i: "i < j" "payload ?p bs j = payload ?p ?as i"
      by (auto simp: live_blocks_iff)
    then have "payload ?p ?as i = payload ?p bs i"
      using j by (simp add: payload_def blk_addr_def min_def)
    with i j show False using payload_inj [OF c(3), of i j] by simp
  qed
  moreover have "(payload ?p bs j, fst (bs ! j)) \<notin> live_blocks (after_blk ?q (bs ! j)) ?cs"
  proof
    assume "(payload ?p bs j, fst (bs ! j)) \<in> live_blocks (after_blk ?q (bs ! j)) ?cs"
    then obtain i where i: "i < length ?cs"
        "payload ?p bs j = payload (after_blk ?q (bs ! j)) ?cs i"
      by (auto simp: live_blocks_iff)
    have "take (Suc j + i) bs = ?as @ bs ! j # take i ?cs"
      using j by (simp only: take_add take_Suc_conv_app_nth) simp
    then have "payload ?p bs (Suc j + i) = payload (after_blk ?q (bs ! j)) ?cs i"
      unfolding payload_def blk_addr_def by simp
    moreover have "Suc j + i < length bs" using i(1) by simp
    ultimately show False using i j payload_inj [OF c(3), of "Suc j + i" j] by simp
  qed
  ultimately have "(payload ?p bs j, fst (bs ! j)) \<notin> live_blocks ?p (free_blk j bs)"
    unfolding l by blast
  then show ?thesis unfolding whole by (rule Diff_insert_absorb [symmetric])
qed


subsection \<open>The blocks do not overlap\<close>

lemma payload_span:
  assumes core: "heap_core s bs" and j: "j < length bs"
  shows "x \<in> span (payload (heap_start s) bs j) (unat (fst (bs ! j))) \<longleftrightarrow>
    unat (blk_addr (heap_start s) bs j) + 16 \<le> unat x \<and>
    unat x < unat (blk_addr (heap_start s) bs j) + blk_extent (bs ! j)"
proof -
  have "unat (payload (heap_start s) bs j) + unat (fst (bs ! j)) \<le> 18446744073709551616"
    using payload_range(3) [OF core j] core by (simp add: heap_core_def)
  then show ?thesis
    using payload_range(1) [OF core j] by (simp add: span_noof blk_extent_def add.assoc)
qed

lemma blocks_apart:
  assumes core: "heap_core s bs" and "i < length bs" "j < length bs" "i \<noteq> j"
    and "unat (blk_addr (heap_start s) bs i) \<le> x"
    and "x < unat (blk_addr (heap_start s) bs i) + blk_extent (bs ! i)"
  shows "\<not> (unat (blk_addr (heap_start s) bs j) \<le> x \<and>
           x < unat (blk_addr (heap_start s) bs j) + blk_extent (bs ! j))"
  using blk_addr_less [OF heap_coreD(3) [OF core], of i j]
    blk_addr_less [OF heap_coreD(3) [OF core], of j i] assms
  by (meson le_trans leD linorder_neqE_nat)

lemma hdr_in_block:
  assumes core: "heap_core s bs" and j: "j < length bs"
  shows "x \<in> span (blk_addr (heap_start s) bs j) 16 \<longleftrightarrow>
    unat (blk_addr (heap_start s) bs j) \<le> unat x \<and>
    unat x < unat (blk_addr (heap_start s) bs j) + 16"
  using payload_range [OF core j] core by (intro span_noof) (simp add: heap_core_def)

lemma payload_not_hdr:
  assumes core: "heap_core s bs" and i: "i < length bs" and j: "j < length bs"
    and x: "x \<in> span (payload (heap_start s) bs i) (unat (fst (bs ! i)))"
  shows "x \<notin> span (blk_addr (heap_start s) bs j) 16"
proof (cases "i = j")
  case False
  then show ?thesis
    using blocks_apart [OF core i j False, of "unat x"] x hdr_in_block [OF core j, of x]
    by (auto simp: payload_span [OF core i] blk_extent_def)
next
  case True
  then show ?thesis using x by (auto simp: payload_span [OF core j] hdr_in_block [OF core j])
qed

lemma payloads_disjoint:
  assumes core: "heap_core s bs" and i: "i < length bs" and j: "j < length bs" and "i \<noteq> j"
  shows "span (payload (heap_start s) bs i) (unat (fst (bs ! i))) \<inter>
         span (payload (heap_start s) bs j) (unat (fst (bs ! j))) = {}"
  using blocks_apart [OF core i j assms(4)]
  by (auto simp: payload_span [OF core i] payload_span [OF core j])

lemma live_disjoint:
  assumes core: "heap_core s bs"
    and "(a, v) \<in> live_blocks (heap_start s) bs" and "(b, w) \<in> live_blocks (heap_start s) bs"
    and "(a, v) \<noteq> (b, w)"
  shows "span a (unat v) \<inter> span b (unat w) = {}"
  using assms(2-4) payloads_disjoint [OF core] unfolding live_blocks_iff by metis

lemma payload_write:
  assumes core: "heap_core s bs" and j: "j < length bs"
    and out: "\<And>x. x \<notin> span (payload (heap_start s) bs j) (unat (fst (bs ! j))) \<Longrightarrow> m x = mem s x"
  shows "hchain m (heap_start s) bs NULL"
proof -
  let ?p = "heap_start s" and ?as = "take j bs" and ?b = "bs ! j" and ?cs = "drop (Suc j) bs"
  note c = heap_coreD [OF core]
  have bs: "bs = ?as @ [?b] @ ?cs" using nth_split [OF j] by simp
  have q: "adv ?p ?as = blk_addr ?p bs j" by (simp add: blk_addr_def)
  have chain: "hchain (mem s) ?p (?as @ [?b] @ ?cs) NULL" using c(1) bs by metis
  have noof: "unat ?p + extent (?as @ [?b] @ ?cs) < 18446744073709551616" using c(3) bs by metis
  have "m x = mem s x" if "x \<in> span (blk_addr ?p bs j) 16" for x
    using payload_not_hdr [OF core j j, of x] that by (intro out) blast
  note hdr_cong [of _ m "mem s", OF this]
  then have "hchain m (adv ?p ?as) [?b] (if ?cs = [] then NULL else adv (adv ?p ?as) [?b])"
    using hchain_mid [of "mem s" ?p ?as ?b ?cs NULL] chain by (simp add: hdr_at_def q)
  then have "hchain m ?p (?as @ [?b] @ ?cs) NULL"
    using noof
    by (intro hchain_replace [OF chain refl]) (auto intro!: out simp: q payload_span [OF core j] blk_extent_def)
  then show ?thesis using bs by metis
qed

subsection \<open>The contract\<close>

text \<open>
  \<open>live s L\<close>: state \<open>s\<close> satisfies the invariant and \<open>L\<close> are the blocks handed out, each with
  its size. \<open>bytes\<close> reads the memory of a state and \<open>poke\<close> replaces it.
\<close>

locale allocator =
  fixes live :: "'s \<Rightarrow> (ptr \<times> u32) set \<Rightarrow> bool"
    and alloc :: "u32 \<Rightarrow> 's \<Rightarrow> (ptr \<times> 's) option"
    and dealloc :: "ptr \<Rightarrow> 's \<Rightarrow> 's option"
    and bytes :: "'s \<Rightarrow> memory"
    and poke :: "memory \<Rightarrow> 's \<Rightarrow> 's"
  assumes alloc_law:
      "live s L \<Longrightarrow> n \<noteq> 0 \<Longrightarrow> unat n \<le> 4294967288 \<Longrightarrow>
       \<exists>p s'. alloc n s = Some (p, s') \<and>
         (p = NULL \<and> live s' L \<and> bytes s' = bytes s \<or>
          p \<noteq> NULL \<and> (\<exists>z \<ge> n. live s' (insert (p, z) L) \<and> (\<forall>w. (p, w) \<notin> L) \<and>
            (\<forall>(a, w) \<in> L. \<forall>x \<in> span a (unat w). bytes s' x = bytes s x)))"
    and dealloc_law:
      "live s L \<Longrightarrow> (p, z) \<in> L \<Longrightarrow> z \<noteq> 0 \<Longrightarrow>
       \<exists>s'. dealloc p s = Some s' \<and> live s' (L - {(p, z)}) \<and>
         (\<forall>(a, w) \<in> L - {(p, z)}. \<forall>x \<in> span a (unat w). bytes s' x = bytes s x)"
    and separate:
      "live s L \<Longrightarrow> (a, v) \<in> L \<Longrightarrow> (b, w) \<in> L \<Longrightarrow> (a, v) \<noteq> (b, w) \<Longrightarrow>
       span a (unat v) \<inter> span b (unat w) = {}"
    and poke_law:
      "live s L \<Longrightarrow> (a, z) \<in> L \<Longrightarrow> (\<And>x. x \<notin> span a (unat z) \<Longrightarrow> m x = bytes s x) \<Longrightarrow>
       live (poke m s) L"
    and bytes_poke: "bytes (poke m s) = m"
    and in_bounds: "live s L \<Longrightarrow> (a, z) \<in> L \<Longrightarrow> unat a + unat z < 18446744073709551616"
begin

text \<open>A block keeps its bytes while other blocks come and go and are written.\<close>

lemma alloc_keeps_bytes:
  assumes "live s L" and "alloc n s = Some (p, s')" and "n \<noteq> 0" and "unat n \<le> 4294967288"
    and "(a, w) \<in> L" and "x \<in> span a (unat w)"
  shows "bytes s' x = bytes s x"
  using alloc_law [OF assms(1,3,4)] assms(2,5,6) by auto

lemma dealloc_keeps_bytes:
  assumes "live s L" and "dealloc p s = Some s'" and "(p, z) \<in> L" and "z \<noteq> 0"
    and "(a, w) \<in> L - {(p, z)}" and "x \<in> span a (unat w)"
  shows "bytes s' x = bytes s x"
  using dealloc_law [OF assms(1,3,4)] assms(2,5,6) by auto

lemma write_keeps_bytes:
  assumes "live s L" and "(a, z) \<in> L" and "\<And>x. x \<notin> span a (unat z) \<Longrightarrow> m x = bytes s x"
    and "(b, w) \<in> L" and "(b, w) \<noteq> (a, z)" and "x \<in> span b (unat w)"
  shows "bytes (poke m s) x = bytes s x"
  using assms(3) [of x] separate [OF assms(1,4,2,5)] assms(6) by (auto simp: bytes_poke)

text \<open>Allocating and giving the block back leaves the blocks of before.\<close>

lemma alloc_dealloc:
  assumes "live s L" and "n \<noteq> 0" and "unat n \<le> 4294967288"
    and "alloc n s = Some (p, s')" and "p \<noteq> NULL"
  shows "\<exists>s''. dealloc p s' = Some s'' \<and> live s'' L \<and>
    (\<forall>(a, w) \<in> L. \<forall>x \<in> span a (unat w). bytes s'' x = bytes s x)"
proof -
  from alloc_law [OF assms(1-3)] assms(4,5) obtain z where
    z: "n \<le> z" "live s' (insert (p, z) L)" "(p, z) \<notin> L"
      "\<forall>(a, w) \<in> L. \<forall>x \<in> span a (unat w). bytes s' x = bytes s x"
    by auto
  have "z \<noteq> 0" using z(1) assms(2) by auto
  with dealloc_law [OF z(2), of p z] z(3) obtain s'' where
    d: "dealloc p s' = Some s''" "live s'' L"
      "\<forall>(a, w) \<in> L. \<forall>x \<in> span a (unat w). bytes s'' x = bytes s' x"
    by auto
  have "bytes s'' x = bytes s x" if "(a, w) \<in> L" "x \<in> span a (unat w)" for a w x
    using bspec [OF d(3) that(1)] bspec [OF z(4) that(1)] that(2) by simp
  with d show ?thesis by blast
qed

end

subsection \<open>The kernel heap keeps the contract\<close>

definition heap_live :: "'a memory_state_scheme \<Rightarrow> (ptr \<times> u32) set \<Rightarrow> bool" where
  "heap_live s L \<longleftrightarrow> (\<exists>bs. heap_inv s bs \<and> L = live_blocks (heap_start s) bs)"


lemma alloc_blk_size:
  assumes "j < length bs" and "n \<le> fst (bs ! j)"
  shows "n \<le> fst (alloc_blk n j bs ! j)"
  using assms by (simp add: alloc_blk_def carve_def nth_append)

lemma heap_inv_hint:
  assumes "heap_inv s bs" and "k < length bs"
  shows "heap_inv (s\<lparr>heap_search_hint := blk_addr (heap_start s) bs k\<rparr>) bs"
  using assms by (auto simp: heap_inv_def heap_ready_def heap_core_def)

text \<open>The two outcomes of \<open>kmalloc\<close>: it takes a free block that fits, or there is none.\<close>

lemma kmalloc_cases:
  fixes s :: "'a memory_state_scheme"
  assumes inv: "heap_inv s bs" and n: "n \<noteq> 0"
  obtains
    (none) s' where "kmalloc n s = Some (NULL, s')" and "heap_inv s' bs" and "mem s' = mem s"
      and "heap_start s' = heap_start s" and "\<forall>b \<in> set bs. \<not> fits (align_up n MIN_ALLOC_ALIGN) b"
  | (some) j s' where "kmalloc n s = Some (payload (heap_start s) bs j, s')"
      and "j < length bs" and "fits (align_up n MIN_ALLOC_ALIGN) (bs ! j)" and "heap_inv s' (alloc_blk (align_up n MIN_ALLOC_ALIGN) j bs)"
      and "heap_start s' = heap_start s"
      and "\<And>x. \<not> (unat (blk_addr (heap_start s) bs j) \<le> unat x \<and>
              unat x < unat (blk_addr (heap_start s) bs j) + blk_extent (bs ! j)) \<Longrightarrow>
            mem s' x = mem s x"
proof -
  from inv have ready: "heap_ready s bs" and core: "heap_core s bs"
    by (simp_all add: heap_inv_def heap_ready_def)
  obtain k where hint: "hint_at s bs k" using hint_at_exists [OF core] by blast
  then have k: "k < length bs" by (simp add: hint_at_def)
  show thesis
  proof (cases "next_fit (align_up n MIN_ALLOC_ALIGN) k bs")
    case None
    then have "\<forall>b \<in> set bs. \<not> fits (align_up n MIN_ALLOC_ALIGN) b" using next_fit_None [of k bs "align_up n MIN_ALLOC_ALIGN"] k by simp
    then show thesis
      using kmalloc_none [OF ready hint n] None heap_inv_hint [OF inv k]
      by (auto intro: none)
  next
    case (Some j)
    have j: "j < length bs" "fits (align_up n MIN_ALLOC_ALIGN) (bs ! j)"
      using next_fit_Some [OF Some] k by (simp_all add: fits_def)
    show thesis
    proof (rule some [OF kmalloc_some [OF ready hint n Some] j])
    qed (simp_all add: alloc_memory(2) [OF core j(1)]
          alloc_keeps_inv [OF inv k Some align_up_dvd])
  qed
qed

lemma live_untouched_by_alloc:
  assumes core: "heap_core s bs" and j: "j < length bs" and free: "snd (bs ! j)"
    and live: "(a, w) \<in> live_blocks (heap_start s) bs" and x: "x \<in> span a (unat w)"
  shows "\<not> (unat (blk_addr (heap_start s) bs j) \<le> unat x \<and>
     unat x < unat (blk_addr (heap_start s) bs j) + blk_extent (bs ! j))"
proof -
  from live obtain i where i: "i < length bs" "\<not> snd (bs ! i)"
      "a = payload (heap_start s) bs i" "w = fst (bs ! i)"
    by (auto simp: live_blocks_iff)
  then have "i \<noteq> j" using free by auto
  with blocks_apart [OF core i(1) j this, of "unat x"] x i show ?thesis
    using payload_span [OF core i(1), of x] by auto
qed

lemma live_untouched_by_free:
  assumes core: "heap_core s bs" and j: "j < length bs"
    and live: "(a, w) \<in> live_blocks (heap_start s) bs" and x: "x \<in> span a (unat w)"
  shows "freed_mem (heap_start s) bs j m x = m x"
proof -
  from live obtain i where i: "i < length bs" "a = payload (heap_start s) bs i" "w = fst (bs ! i)"
    by (auto simp: live_blocks_iff)
  note out = payload_not_hdr [OF core i(1)]
  show ?thesis
    using out [OF j, of x] out [of "j - 1" x] j x i
    by (intro freed_mem_outside) (auto simp: prev_addr_def split: if_splits)
qed

interpretation kheap: allocator heap_live kmalloc kfree mem "\<lambda>m s. s\<lparr>mem := m\<rparr>"
proof
  fix s :: "'a memory_state_scheme" and L :: "(ptr \<times> u32) set" and n :: u32
  assume "heap_live s L" and n: "n \<noteq> 0" and bound: "unat n \<le> 4294967288"
  then obtain bs where inv: "heap_inv s bs" and L: "L = live_blocks (heap_start s) bs"
    by (auto simp: heap_live_def)
  then have core: "heap_core s bs" by (simp add: heap_inv_def heap_ready_def)
  note noof = heap_coreD(3) [OF core]
  let ?n = "align_up n MIN_ALLOC_ALIGN"
  show "\<exists>p s'. kmalloc n s = Some (p, s') \<and>
      (p = NULL \<and> heap_live s' L \<and> mem s' = mem s \<or>
       p \<noteq> NULL \<and> (\<exists>z \<ge> n. heap_live s' (insert (p, z) L) \<and> (\<forall>w. (p, w) \<notin> L) \<and>
         (\<forall>(a, w) \<in> L. \<forall>x \<in> span a (unat w). mem s' x = mem s x)))"
  proof (cases rule: kmalloc_cases [OF inv n, case_names none some])
    case (none s')
    then show ?thesis by (auto simp: heap_live_def L)
  next
    case (some j s')
    let ?z = "fst (alloc_blk ?n j bs ! j)"
    have free: "snd (bs ! j)" "?n \<le> fst (bs ! j)" using some(3) by (simp_all add: fits_def)
    have z: "n \<le> ?z"
      using alloc_blk_size [OF some(2) free(2)] align_up_bounds(1) [OF bound]
      by (simp add: word_le_nat_alt)
    have live: "heap_live s' (insert (payload (heap_start s) bs j, ?z) L)"
      using some live_alloc [OF noof some(2) free(1), of ?n] by (auto simp: heap_live_def L)
    have fresh: "\<forall>w. (payload (heap_start s) bs j, w) \<notin> L"
      using payload_inj [OF noof] some(2) free(1) by (auto simp: L live_blocks_iff)
    have "mem s' x = mem s x" if "(a, w) \<in> L" "x \<in> span a (unat w)" for a w x
      using live_untouched_by_alloc [OF core some(2) free(1)] that some(6) by (simp add: L)
    then show ?thesis
      using some(1) z live fresh payload_nonnull [OF core some(2)] by auto
  qed
next
  fix s :: "'a memory_state_scheme" and L :: "(ptr \<times> u32) set" and p :: ptr and z :: u32
  assume "heap_live s L" and p: "(p, z) \<in> L" "z \<noteq> 0"
  then obtain bs where inv: "heap_inv s bs" and L: "L = live_blocks (heap_start s) bs"
    by (auto simp: heap_live_def)
  then have ready: "heap_ready s bs" and core: "heap_core s bs"
    by (simp_all add: heap_inv_def heap_ready_def)
  obtain j where j: "j < length bs" "\<not> snd (bs ! j)" "p = payload (heap_start s) bs j"
      "z = fst (bs ! j)"
    using p(1) by (auto simp: L live_blocks_iff)
  let ?s = "s\<lparr>mem := freed_mem (heap_start s) bs j (mem s),
      total_freed := total_freed s + fst (bs ! j),
      heap_search_hint := blk_addr (heap_start s) bs (free_index j bs)\<rparr>"
  have "kfree p s = Some ?s"
    using kfree_payload [OF ready j(1,2) kfree_accepts(2) [OF core j(1)]] p(2) j(3,4) by simp
  moreover have "heap_live ?s (L - {(p, z)})"
    using free_keeps_inv [OF inv j(1,2)] live_free [OF core j(1,2)] j(3,4)
    by (auto simp: heap_live_def L)
  ultimately show "\<exists>s'. kfree p s = Some s' \<and> heap_live s' (L - {(p, z)}) \<and>
      (\<forall>(a, w) \<in> L - {(p, z)}. \<forall>x \<in> span a (unat w). mem s' x = mem s x)"
    using live_untouched_by_free [OF core j(1)] by (auto simp: L)
next
  fix s :: "'a memory_state_scheme" and L :: "(ptr \<times> u32) set" and a b :: ptr and v w :: u32
  assume "heap_live s L" "(a, v) \<in> L" "(b, w) \<in> L" "(a, v) \<noteq> (b, w)"
  then show "span a (unat v) \<inter> span b (unat w) = {}"
    using live_disjoint unfolding heap_live_def heap_inv_def heap_ready_def by blast
next
  fix s :: "'a memory_state_scheme" and L :: "(ptr \<times> u32) set" and a :: ptr and z :: u32 and m :: memory
  assume "heap_live s L" "(a, z) \<in> L" and out: "\<And>x. x \<notin> span a (unat z) \<Longrightarrow> m x = mem s x"
  then obtain bs j where inv: "heap_inv s bs" and L: "L = live_blocks (heap_start s) bs"
    and j: "j < length bs" "a = payload (heap_start s) bs j" "z = fst (bs ! j)"
    by (auto simp: heap_live_def live_blocks_iff)
  then have core: "heap_core s bs" by (simp add: heap_inv_def heap_ready_def)
  have "hchain m (heap_start s) bs NULL"
    using payload_write [OF core j(1)] out j(2,3) by simp
  with inv show "heap_live (s\<lparr>mem := m\<rparr>) L"
    by (auto simp: heap_live_def heap_inv_def heap_ready_def heap_core_def L)
next
  fix s :: "'a memory_state_scheme" and L :: "(ptr \<times> u32) set" and a :: ptr and z :: u32
  assume "heap_live s L" "(a, z) \<in> L"
  then obtain bs j where "heap_core s bs" "j < length bs" "a = payload (heap_start s) bs j" "z = fst (bs ! j)"
    by (auto simp: heap_live_def live_blocks_iff heap_inv_def heap_ready_def)
  then show "unat a + unat z < 18446744073709551616"
    using payload_range(3) [of s bs j] by (simp add: heap_core_def)
qed simp


subsection \<open>Initialisation\<close>

text \<open>The heap starts at the first page after the kernel image.\<close>

lemma heap_page_addr:
  fixes ke :: u64
  assumes "unat ke \<le> 17592169267200"
  defines "pg \<equiv> (ucast ((ke + PAGE_SIZE - 1) div PAGE_SIZE) :: u32)"
  shows "unat (ucast pg * PAGE_SIZE :: u64) = 4096 * ((unat ke + 4095) div 4096)"
proof -
  have "unat (ke + 4095) = unat ke + 4095" using assms(1) by (subst unat_add_noof) simp_all
  then have 1: "unat ((ke + PAGE_SIZE - 1) div PAGE_SIZE) = (unat ke + 4095) div 4096"
    by (simp add: PAGE_SIZE_def unat_div add_diff_eq [symmetric])
  have 2: "(unat ke + 4095) div 4096 < 4294967296" using assms(1) by (simp add: less_mult_imp_div_less)
  have "unat pg = (unat ke + 4095) div 4096"
    unfolding pg_def using 1 2 by (subst unat_ucast_u64_u32) simp_all
  then show ?thesis
    using 2 by (simp add: PAGE_SIZE_def unat_word_ariths)
qed

lemma heap_core_single:
  fixes s :: "'a memory_state_scheme"
  assumes "heap_initialized s \<noteq> 0" and "heap_start s \<noteq> NULL" and "8 dvd unat (heap_start s)"
    and "unat (heap_start s) + 16777216 < 18446744073709551616"
    and "hdr_at (mem s) (heap_start s) (16777200, True) NULL"
    and "heap_search_hint s = heap_start s"
  shows "heap_core s [(16777200, True)]"
  using assms by (auto simp: heap_core_def)

lemma memory_init_inv:
  fixes s :: "'a memory_state_scheme"
  assumes fresh: "heap_initialized s = 0" "heap_lock s = 0"
    and page: "heap_start_page s = 0 \<or> heap_start_page s = ucast ((ke + PAGE_SIZE - 1) div PAGE_SIZE)"
    and ke: "ke \<noteq> 0" "unat ke \<le> 17592169267200"
  shows "heap_inv (memory_init ke s) [(16777200, True)]"
    and "unat (heap_start (memory_init ke s)) = 4096 * ((unat ke + 4095) div 4096)"
proof -
  let ?pg = "ucast ((ke + PAGE_SIZE - 1) div PAGE_SIZE) :: u32"
  let ?h = "ucast ?pg * PAGE_SIZE :: u64"
  have h: "unat ?h = 4096 * ((unat ke + 4095) div 4096)" by (rule heap_page_addr [OF ke(2)])
  have "unat ke \<noteq> 0" using ke(1) by (simp add: unat_eq_0)
  then have "(unat ke + 4095) div 4096 \<noteq> 0" by (simp add: div_eq_0_iff)
  then have hpos: "?h \<noteq> NULL" using h by (metis mult_is_0 unat_0 zero_neq_numeral)
  have pg: "fst (calc_heap_start_page ke s) = ?pg"
    "snd (calc_heap_start_page ke s) = s\<lparr>heap_start_page := ?pg\<rparr>"
    using page by (auto simp: calc_heap_start_page_def Let_def)
  then have calc: "calc_heap_start_page ke s = (?pg, s\<lparr>heap_start_page := ?pg\<rparr>)"
    by (simp add: prod_eq_iff)
  have start: "heap_start (memory_init ke s) = ?h"
    by (simp add: memory_init_def calc fresh serial_simps Let_def)
  have size: "(ucast (HEAP_PAGE_COUNT * PAGE_SIZE - sizeof_memory_block) :: u32) = 16777200"
    by (simp add: HEAP_PAGE_COUNT_def PAGE_SIZE_def sizeof_memory_block_def)
  have "8 dvd unat ?h" unfolding h by simp
  moreover have "unat ?h + 16777216 < 18446744073709551616" unfolding h using ke(2) by simp
  ultimately have "heap_core (memory_init ke s) [(16777200, True)]"
    using hpos
    by (intro heap_core_single)
      (simp_all add: memory_init_def calc fresh serial_simps Let_def hdr_at_def
        mem_simps size)
  then show "heap_inv (memory_init ke s) [(16777200, True)]"
    using fresh
    by (simp add: heap_inv_def heap_ready_def memory_init_def calc serial_simps Let_def)
  show "unat (heap_start (memory_init ke s)) = 4096 * ((unat ke + 4095) div 4096)"
    using start h by simp
qed

subsection \<open>Zeroed blocks\<close>

lemma kcalloc_cases:
  fixes s :: "'a memory_state_scheme"
  assumes live: "heap_live s L" and "num \<noteq> 0" "sz \<noteq> 0" and fit: "unat num * unat sz \<le> 4294967288"
  shows "\<exists>p s'. kcalloc num sz s = Some (p, s') \<and>
    (p = NULL \<and> heap_live s' L \<and> mem s' = mem s \<or>
     p \<noteq> NULL \<and> (\<exists>z. unat num * unat sz \<le> unat z \<and> heap_live s' (insert (p, z) L) \<and>
       (\<forall>w. (p, w) \<notin> L) \<and> (\<forall>x \<in> span p (unat num * unat sz). mem s' x = 0) \<and>
       (\<forall>(a, w) \<in> L. \<forall>x \<in> span a (unat w). mem s' x = mem s x)))"
proof -
  let ?t = "num * sz"
  have t: "unat ?t = unat num * unat sz" using fit by (simp add: unat_word_ariths)
  then have t0: "?t \<noteq> 0" using assms(2,3) by (metis mult_is_0 unat_0 unat_eq_0)
  have "\<not> 0xFFFFFFFF div num < sz"
    using fit assms(2) by (simp add: word_less_nat_alt unat_div not_less less_eq_div_iff_mult_less_eq
        unat_gt_0 mult.commute)
  then have kc: "kcalloc num sz s = do { (p, s') \<leftarrow> kmalloc ?t s;
      if p \<noteq> NULL then Some (p, s'\<lparr>mem := memset p 0 (ucast ?t) (mem s')\<rparr>) else Some (p, s') }"
    using assms(2) by (simp add: kcalloc_def memset_def Let_def cong: if_cong)
  from kheap.alloc_law [OF live t0] t fit obtain p s' where k: "kmalloc ?t s = Some (p, s')"
    and r: "p = NULL \<and> heap_live s' L \<and> mem s' = mem s \<or>
      p \<noteq> NULL \<and> (\<exists>z \<ge> ?t. heap_live s' (insert (p, z) L) \<and> (\<forall>w. (p, w) \<notin> L) \<and>
        (\<forall>(a, w) \<in> L. \<forall>x \<in> span a (unat w). mem s' x = mem s x))"
    by auto
  show ?thesis
  proof (cases "p = NULL")
    case True
    then show ?thesis using kc k r by auto
  next
    case False
    with r obtain z where z: "?t \<le> z" "heap_live s' (insert (p, z) L)" "\<forall>w. (p, w) \<notin> L"
        "\<forall>(a, w) \<in> L. \<forall>x \<in> span a (unat w). mem s' x = mem s x"
      by auto
    let ?m = "memset p 0 (ucast ?t) (mem s')"
    have m: "?m x = (if x \<in> span p (unat num * unat sz) then 0 else mem s' x)" for x
      by (simp add: memset_apply t)
    have sub: "span p (unat num * unat sz) \<subseteq> span p (unat z)"
      using z(1) t by (auto simp: span_def word_le_nat_alt)
    have "heap_live (s'\<lparr>mem := ?m\<rparr>) (insert (p, z) L)"
      using sub by (intro kheap.poke_law [OF z(2), of p z]) (auto simp: m)
    moreover have "?m x = mem s x" if "(a, w) \<in> L" "x \<in> span a (unat w)" for a w x
    proof -
      have "(a, w) \<noteq> (p, z)" using z(3) that(1) by auto
      then have "x \<notin> span p (unat z)"
        using kheap.separate [OF z(2), of a w p z] that by auto
      then show ?thesis using sub bspec [OF z(4) that(1)] that(2) by (auto simp: m)
    qed
    moreover have "\<forall>x \<in> span p (unat num * unat sz). ?m x = 0" by (simp add: m)
    ultimately show ?thesis
      using kc k False z(1,3) t by (auto simp: word_le_nat_alt intro!: exI [of _ z])
  qed
qed

subsection \<open>Every operation keeps the invariant\<close>

lemma kmalloc_keeps_inv:
  assumes inv: "heap_inv s bs"
  shows "\<exists>p s' bs'. kmalloc n s = Some (p, s') \<and> heap_inv s' bs'"
proof (cases "n = 0")
  case True
  then show ?thesis
    using inv by (auto simp: kmalloc_def heap_inv_def heap_ready_def heap_core_def)
next
  case False
  show ?thesis by (rule kmalloc_cases [OF inv False]) blast+
qed

lemma kfree_keeps_inv:
  fixes s :: "'a memory_state_scheme"
  assumes inv: "heap_inv s bs"
  shows "\<exists>s' bs'. kfree p s = Some s' \<and> heap_inv s' bs'"
proof -
  from inv have ready: "heap_ready s bs" and core: "heap_core s bs"
    by (simp_all add: heap_inv_def heap_ready_def)
  consider "p = NULL" | j where "j < length bs" "p = payload (heap_start s) bs j"
    | "p \<noteq> NULL" "\<And>j. j < length bs \<Longrightarrow> payload (heap_start s) bs j \<noteq> p"
    by metis
  then show ?thesis
  proof cases
    case 1
    then show ?thesis using inv by (auto simp: kfree_def)
  next
    case (2 j)
    show ?thesis
    proof (cases "heap_start s + HEAP_PAGE_COUNT * PAGE_SIZE \<le> p")
      case True
      have "heap_initialized s \<noteq> 0" "heap_start s \<noteq> NULL" "p \<noteq> NULL"
        using core payload_nonnull [OF core 2(1)] 2(2) by (simp_all add: heap_core_def)
      with True inv show ?thesis by (auto simp: kfree_def serial_simps)
    next
      case False
      then show ?thesis
        using kfree_payload [OF ready 2(1)] kfree_double [OF ready 2(1)] free_keeps_inv [OF inv 2(1)]
          2(2) inv
        by (cases "snd (bs ! j)") (auto simp: serial_simps)
    qed
  next
    case 3
    then obtain out where "kfree p s = Some (s\<lparr>serial_out := serial_out s @ out\<rparr>)"
      using kfree_untracked [OF ready] by blast
    then show ?thesis using inv by auto
  qed
qed

lemma heap_live_inv: "(\<exists>L. heap_live s L) \<longleftrightarrow> (\<exists>bs. heap_inv s bs)"
  by (auto simp: heap_live_def)


subsection \<open>Resizing\<close>

text \<open>With the lock free, \<open>krealloc\<close> of a tracked block in use.\<close>

lemma krealloc_sequential:
  fixes s :: "'a memory_state_scheme"
  assumes ready: "heap_ready s bs" and j: "j < length bs" and used: "\<not> snd (bs ! j)" and n: "n \<noteq> 0"
  defines "p \<equiv> payload (heap_start s) bs j"
  defines "q \<equiv> blk_addr (heap_start s) bs j"
  defines "n' \<equiv> align_up n MIN_ALLOC_ALIGN"
  shows "krealloc p n s =
    (if n' \<le> fst (bs ! j)
     then Some (p, s\<lparr>mem := split_block_if_needed q n' (mem s)\<rparr>)
     else if blk_next (mem s) q \<noteq> NULL \<and> blk_is_free (mem s) (blk_next (mem s) q) \<noteq> 0 \<and>
             (ucast (fst (bs ! j)) :: u64) + sizeof_memory_block
               + ucast (blk_size (mem s) (blk_next (mem s) q)) \<ge> ucast n'
     then Some (p, s\<lparr>mem := split_block_if_needed q n' (absorb_block q (blk_next (mem s) q) (mem s))\<rparr>)
     else do {
       (new_ptr, s) \<leftarrow> kmalloc n' s;
       if new_ptr = NULL then Some (NULL, s)
       else do {
         s \<leftarrow> kfree p (s\<lparr>mem := memcpy new_ptr p (ucast (fst (bs ! j))) (mem s)\<rparr>);
         Some (new_ptr, s)
       }
     })"
proof -
  from ready have core: "heap_core s bs" and lck: "heap_lock s = 0"
    by (simp_all add: heap_ready_def)
  note c = heap_coreD [OF core]
  have h: "blk_size (mem s) q = fst (bs ! j)" "blk_is_free (mem s) q = 0"
    using hchain_nth [OF c(1) j] used by (simp_all add: hdr_at_def q_def)
  have nn: "q \<noteq> NULL" "p \<noteq> NULL"
    unfolding q_def p_def using blk_addr_nonnull [OF c(3,2)] payload_nonnull [OF core j] by auto
  have find: "find_block_by_payload p (enter_heap s) = Some (q, prev_addr (heap_start s) bs j)"
    using find_block_payload [of "enter_heap s" bs j] c j by (simp add: p_def q_def)
  show ?thesis
    using enter_heap [OF lck] lck n nn find h
    by (simp add: krealloc_def irq_save_disable_def n'_def [symmetric] memcpy_def Let_def cong: if_cong)
qed

text \<open>
  A block whose successor is in use (or that is the last one) and that is too small moves:
  the new block holds the old bytes, and the old block is released.
\<close>

lemma krealloc_moves:
  fixes s :: "'a memory_state_scheme"
  assumes inv: "heap_inv s bs" and j: "j < length bs" and used: "\<not> snd (bs ! j)"
    and nxt: "Suc j < length bs \<Longrightarrow> \<not> snd (bs ! Suc j)" and pos: "fst (bs ! j) \<noteq> 0"
    and grow: "fst (bs ! j) < n" and n: "unat n \<le> 4294967280"
  defines "p \<equiv> payload (heap_start s) bs j" and "z \<equiv> fst (bs ! j)"
    and "L \<equiv> live_blocks (heap_start s) bs"
  shows "\<exists>q s'. krealloc p n s = Some (q, s') \<and>
    (q = NULL \<and> heap_live s' L \<and> mem s' = mem s \<or>
     q \<noteq> NULL \<and> (\<exists>w \<ge> n. heap_live s' (insert (q, w) (L - {(p, z)})) \<and>
       load_bytes (mem s') q (unat z) = load_bytes (mem s) p (unat z) \<and>
       (\<forall>(a, v) \<in> L - {(p, z)}. \<forall>x \<in> span a (unat v). mem s' x = mem s x)))"
proof -
  from inv have ready: "heap_ready s bs" and core: "heap_core s bs"
    by (simp_all add: heap_inv_def heap_ready_def)
  note c = heap_coreD [OF core]
  let ?n = "align_up n MIN_ALLOC_ALIGN" and ?q = "blk_addr (heap_start s) bs j"
  have n': "n \<le> ?n" "unat ?n \<le> 4294967288" "n \<noteq> 0"
    using align_up_bounds [of n] n grow by (auto simp: word_le_nat_alt)
  have live: "heap_live s L" unfolding L_def heap_live_def using inv by blast
  have pL: "(p, z) \<in> L" unfolding L_def p_def z_def live_blocks_iff using j used by blast
  have big: "\<not> ?n \<le> z" using grow n'(1) by (simp add: z_def)
  have "blk_next (mem s) ?q = NULL \<or> blk_is_free (mem s) (blk_next (mem s) ?q) = 0"
    using hchain_nth [OF c(1) j] hchain_nth [OF c(1), of "Suc j"] nxt
    by (cases "Suc j < length bs") (auto simp: hdr_at_def)
  then have kr: "krealloc p n s = do {
       (new_ptr, s) \<leftarrow> kmalloc ?n s;
       if new_ptr = NULL then Some (NULL, s)
       else do {
         s \<leftarrow> kfree p (s\<lparr>mem := memcpy new_ptr p (ucast z) (mem s)\<rparr>);
         Some (new_ptr, s)
       }
     }"
    using krealloc_sequential [OF ready j used n'(3)] big unfolding p_def z_def by auto
  have nz: "?n \<noteq> 0" using n'(1,3) by auto
  obtain q s1 where k: "kmalloc ?n s = Some (q, s1)"
    and r: "q = NULL \<and> heap_live s1 L \<and> mem s1 = mem s \<or>
      q \<noteq> NULL \<and> (\<exists>w \<ge> ?n. heap_live s1 (insert (q, w) L) \<and> (\<forall>v. (q, v) \<notin> L) \<and>
        (\<forall>(a, v) \<in> L. \<forall>x \<in> span a (unat v). mem s1 x = mem s x))"
    using kheap.alloc_law [OF live nz n'(2)] by blast
  show ?thesis
  proof (cases "q = NULL")
    case True
    then show ?thesis using kr k r by auto
  next
    case False
    with r obtain w where w: "?n \<le> w" "heap_live s1 (insert (q, w) L)" "\<forall>v. (q, v) \<notin> L"
      and same: "\<forall>(a, v) \<in> L. \<forall>x \<in> span a (unat v). mem s1 x = mem s x"
      by auto
    let ?m = "memcpy q p (ucast z) (mem s1)"
    have apart: "span q (unat w) \<inter> span p (unat z) = {}"
      using kheap.separate [OF w(2), of q w p z] pL w(3) by auto
    have zw: "unat z \<le> unat w" using big w(1) by (simp add: word_le_nat_alt)
    then have sub: "span q (unat z) \<subseteq> span q (unat w)" by (auto simp: span_def)
    have out: "?m x = mem s1 x" if "x \<notin> span q (unat w)" for x
      using sub that memcpy_outside [of x q "ucast z" p] by auto
    have live2: "heap_live (s1\<lparr>mem := ?m\<rparr>) (insert (q, w) L)"
      using out by (intro kheap.poke_law [OF w(2), of q w]) auto
    obtain s2 where s2: "kfree p (s1\<lparr>mem := ?m\<rparr>) = Some s2"
        "heap_live s2 (insert (q, w) L - {(p, z)})"
        "\<forall>(a, v) \<in> insert (q, w) L - {(p, z)}. \<forall>x \<in> span a (unat v). mem s2 x = ?m x"
      using kheap.dealloc_law [OF live2, of p z] pL pos by (auto simp: z_def)
    have zl: "unat z \<le> 18446744073709551616" using unat_lt_u32 [of z] by simp
    have qp: "(q, w) \<noteq> (p, z)" using w(3) pL by auto
    have "load_bytes (mem s2) q (unat z) = load_bytes ?m q (unat z)"
      using bspec [OF s2(3), of "(q, w)"] qp sub zl
      by (intro load_bytes_cong) (auto simp: subset_eq)
    also have "\<dots> = load_bytes (mem s1) p (unat z)"
      using load_bytes_memcpy [of q "ucast z" p "mem s1"] apart sub by auto
    also have "\<dots> = load_bytes (mem s) p (unat z)"
      using bspec [OF same pL] zl by (intro load_bytes_cong) auto
    finally have data: "load_bytes (mem s2) q (unat z) = load_bytes (mem s) p (unat z)" .
    have "mem s2 x = mem s x" if "(a, v) \<in> L - {(p, z)}" "x \<in> span a (unat v)" for a v x
    proof -
      have "x \<notin> span q (unat w)"
        using kheap.separate [OF w(2), of a v q w] that w(3) by auto
      then show ?thesis
        using bspec [OF s2(3), of "(a, v)"] bspec [OF same, of "(a, v)"] that out by auto
    qed
    moreover have "insert (q, w) L - {(p, z)} = insert (q, w) (L - {(p, z)})" using qp by auto
    moreover have "n \<le> w" using n'(1) w(1) by simp
    ultimately show ?thesis using kr k False s2(1,2) data by auto
  qed
qed

lemma extent_dvd: "\<forall>b \<in> set bs. 8 dvd unat (fst b) \<Longrightarrow> 8 dvd extent bs"
  by (induction bs) auto

lemma payload_aligned:
  assumes core: "heap_core s bs" and j: "j < length bs"
  shows "8 dvd unat (payload (heap_start s) bs j)"
proof -
  have "8 dvd extent (take j bs)"
    using core by (intro extent_dvd) (auto simp: heap_core_def dest: in_set_takeD)
  then show ?thesis
    using core by (simp add: payload_range(1) [OF core j] unat_blk_addr [OF heap_coreD(3) [OF core]]
        heap_core_def)
qed

text \<open>Allocating a block and releasing it restores the list of blocks.\<close>

lemma free_alloc_blk:
  assumes co: "coalesced bs" and j: "j < length bs" and fr: "snd (bs ! j)"
  shows "free_blk j (alloc_blk n j bs) = bs"
proof -
  let ?as = "take j bs" and ?b = "bs ! j" and ?cs = "drop (Suc j) bs"
  have bs: "bs = ?as @ ?b # ?cs" by (rule nth_split [OF j])
  have "coalesced (?as @ ?b # ?cs)" using co bs by metis
  then have c: "?as \<noteq> [] \<Longrightarrow> \<not> snd (last ?as)" "?cs \<noteq> [] \<Longrightarrow> \<not> snd (hd ?cs)"
    using fr by (auto simp: coalesced_append coalesced_Cons)
  have m: "merge_next (fst ?b, True) ?cs = ?b # ?cs"
    using c(2) fr by (cases ?cs) (auto simp: prod_eq_iff)
  have "free_blk j (alloc_blk n j bs) = ?as @ ?b # ?cs"
  proof (cases "unat n + 80 \<le> unat (fst ?b)")
    case True
    have "n + 16 + (fst ?b - n - 16) = fst ?b" by (simp add: algebra_simps)
    then have "join_blk (n, True) (fst ?b - n - 16, True) = ?b"
      using fr by (simp add: join_blk_def prod_eq_iff)
    with True show ?thesis
      using j c(1) by (auto simp: free_blk_def alloc_blk_def carve_def nth_append merge_prev_def min_def)
  next
    case False
    then show ?thesis
      using j c(1) m by (auto simp: free_blk_def alloc_blk_def carve_def nth_append merge_prev_def min_def)
  qed
  then show ?thesis using bs by simp
qed

end
