(* ===== verification/Heap_Properties.thy ===== *)
theory Heap_Properties
  imports Heap_Interface
begin

text \<open>
  The properties of the kernel heap (\<open>Kernel/Memory/Memory_Main.c\<close>), from the lemmas of
  the block list and the allocator contract.
\<close>

subsection \<open>Reachable heaps\<close>

text \<open>The statics of \<open>Memory_Main.c\<close> as the loader leaves them, over zeroed memory.\<close>

definition static_memory_state :: memory_state where
  "static_memory_state =
     \<lparr>mem = (\<lambda>_. 0), serial_out = [], rflags = 0x202,
      heap_start = NULL, heap_search_hint = NULL, heap_initialized = 0,
      total_allocated = 0, total_freed = 0, heap_start_page = 0, heap_lock = 0,
      page_bitmap = (\<lambda>_. 0), page_lock = 0, page_alloc_hint = 0\<rparr>"

lemma static_fields [simp]:
  "heap_initialized static_memory_state = 0" "heap_start_page static_memory_state = 0"
  "heap_lock static_memory_state = 0"
  by (simp_all add: static_memory_state_def)





lemma boot_heap_inv: "heap_inv (memory_init 0x200000 static_memory_state) [(16777200, True)]"
  by (rule memory_init_inv(1)) simp_all

lemma boot_heap_live: "heap_live (memory_init 0x200000 static_memory_state) {}"
  using boot_heap_inv by (auto simp: heap_live_def intro!: exI [of _ "[(16777200, True)]"])


subsection \<open>Allocation\<close>

text \<open>
  C2: \<open>kmalloc\<close> of \<open>n\<close> bytes, up to the largest size that can be rounded up, always
  returns. When some free block holds the rounded size it returns a block that was free:
  8-aligned, inside the heap, at least \<open>n\<close> bytes long, and marked in use; every byte outside
  that block keeps its value and the invariant holds again. When no free block is large
  enough it returns NULL and leaves memory and the list of blocks as they were.
\<close>

theorem kmalloc_correct:
  fixes s :: "'a memory_state_scheme"
  assumes inv: "heap_inv s bs" and n: "n \<noteq> 0" and bound: "unat n \<le> 4294967288"
  defines "n' \<equiv> align_up n MIN_ALLOC_ALIGN"
  shows "\<exists>p s'. kmalloc n s = Some (p, s') \<and>
    (if \<exists>b \<in> set bs. snd b \<and> n' \<le> fst b
     then \<exists>j < length bs. snd (bs ! j) \<and> p = payload (heap_start s) bs j \<and>
       8 dvd unat p \<and> unat (heap_start s) + 16 \<le> unat p \<and>
       unat p + unat n \<le> unat (heap_start s) + 16777216 \<and>
       heap_inv s' (alloc_blk n' j bs) \<and> \<not> snd (alloc_blk n' j bs ! j) \<and>
       n \<le> fst (alloc_blk n' j bs ! j) \<and>
       (\<forall>x. \<not> (unat p - 16 \<le> unat x \<and> unat x < unat p + unat (fst (bs ! j))) \<longrightarrow>
          mem s' x = mem s x)
     else p = NULL \<and> mem s' = mem s \<and> heap_inv s' bs)"
proof (cases rule: kmalloc_cases [OF inv n, case_names none some])
  case (none s')
  then show ?thesis by (auto simp: n'_def fits_def)
next
  case (some j s')
  from inv have core: "heap_core s bs" by (simp add: heap_inv_def heap_ready_def)
  have fit: "snd (bs ! j)" "n' \<le> fst (bs ! j)" using some(3) by (simp_all add: fits_def n'_def)
  have nn': "n \<le> n'" using align_up_bounds(1) [OF bound] by (simp add: n'_def word_le_nat_alt)
  note pr = payload_range [OF core some(2)]
  have "8 dvd unat (payload (heap_start s) bs j)"
    using payload_aligned [OF core some(2)] .
  moreover have "n \<le> fst (alloc_blk n' j bs ! j)"
    using alloc_blk_size [OF some(2) fit(2)] nn' by simp
  moreover have "unat n \<le> unat (fst (bs ! j))" using fit(2) nn' by (simp add: word_le_nat_alt)
  ultimately show ?thesis
    using some fit pr alloc_blk_nth [OF some(2), of n']
    by (auto simp: n'_def blk_extent_def intro!: exI [of _ j])
qed

theorem kmalloc_correct_witness:
  "\<exists>p s'. kmalloc 100 (memory_init 0x200000 static_memory_state) = Some (p, s') \<and>
     8 dvd unat p \<and> heap_inv s' (alloc_blk 104 0 [(16777200, True)])"
  using kmalloc_correct [OF boot_heap_inv, of 100]
  by (simp add: align_up_def MIN_ALLOC_ALIGN_def) metis

text \<open>
  C4: A block that \<open>kmalloc\<close> hands out is new: it is none of the blocks in use, its bytes
  are disjoint from theirs, and they all keep their contents. The set of blocks in use
  grows by exactly that block.
\<close>

theorem kmalloc_fresh:
  fixes s :: "'a memory_state_scheme"
  assumes "heap_live s L" and "n \<noteq> 0" and "unat n \<le> 4294967288"
    and "kmalloc n s = Some (p, s')" and "p \<noteq> NULL"
  shows "\<exists>z \<ge> n. heap_live s' (insert (p, z) L) \<and>
    (\<forall>(a, w) \<in> L. a \<noteq> p \<and> span a (unat w) \<inter> span p (unat z) = {} \<and>
       load_bytes (mem s') a (unat w) = load_bytes (mem s) a (unat w))"
proof -
  from kheap.alloc_law [OF assms(1-3)] assms(4,5) obtain z where
    z: "n \<le> z" "heap_live s' (insert (p, z) L)" "\<forall>w. (p, w) \<notin> L"
    and same: "\<forall>(a, w) \<in> L. \<forall>x \<in> span a (unat w). mem s' x = mem s x"
    by auto
  have "a \<noteq> p \<and> span a (unat w) \<inter> span p (unat z) = {} \<and>
      load_bytes (mem s') a (unat w) = load_bytes (mem s) a (unat w)" if aw: "(a, w) \<in> L" for a w
  proof (intro conjI)
    show "a \<noteq> p" using aw z(3) by auto
    then show "span a (unat w) \<inter> span p (unat z) = {}"
      using kheap.separate [OF z(2), of a w p z] aw by simp
    show "load_bytes (mem s') a (unat w) = load_bytes (mem s) a (unat w)"
      using bspec [OF same aw] unat_lt_u32 [of w] by (intro load_bytes_cong) auto
  qed
  with z(1,2) show ?thesis by blast
qed

lemma boot_kmalloc:
  "\<exists>p s'. kmalloc 100 (memory_init 0x200000 static_memory_state) = Some (p, s') \<and> p \<noteq> NULL"
proof (cases rule: kmalloc_cases [OF boot_heap_inv, of 100, case_names nz none some])
  case (none s')
  then show ?thesis by (simp add: fits_def align_up_def MIN_ALLOC_ALIGN_def)
next
  case (some j s')
  then show ?thesis
    using payload_nonnull [OF _ some(2)] boot_heap_inv by (auto simp: heap_inv_def heap_ready_def)
qed simp

theorem kmalloc_fresh_witness:
  "\<exists>p s' z. kmalloc 100 (memory_init 0x200000 static_memory_state) = Some (p, s') \<and>
     100 \<le> z \<and> heap_live s' {(p, z)}"
proof -
  obtain p s' where k: "kmalloc 100 (memory_init 0x200000 static_memory_state) = Some (p, s')"
      "p \<noteq> NULL"
    using boot_kmalloc by blast
  from kmalloc_fresh [OF boot_heap_live _ _ k] k(1) show ?thesis by auto
qed


subsection \<open>Release\<close>

text \<open>
  C3: \<open>kfree\<close> of a block in use returns, takes exactly that block out of the set of blocks
  in use, keeps the contents of every other block, and gives back a heap that satisfies
  the invariant, in which the block is merged with its free neighbours and the search
  hint points to the merged block.
\<close>

theorem kfree_correct:
  fixes s :: "'a memory_state_scheme"
  assumes inv: "heap_inv s bs" and j: "j < length bs" and used: "\<not> snd (bs ! j)"
    and pos: "fst (bs ! j) \<noteq> 0"
  defines "p \<equiv> payload (heap_start s) bs j"
  shows "\<exists>s'. kfree p s = Some s' \<and> heap_inv s' (free_blk j bs) \<and>
    live_blocks (heap_start s') (free_blk j bs) =
      live_blocks (heap_start s) bs - {(p, fst (bs ! j))} \<and>
    heap_search_hint s' = blk_addr (heap_start s') (free_blk j bs) (free_index j bs) \<and>
    (\<forall>(a, w) \<in> live_blocks (heap_start s) bs - {(p, fst (bs ! j))}.
       load_bytes (mem s') a (unat w) = load_bytes (mem s) a (unat w))"
proof -
  from inv have ready: "heap_ready s bs" and core: "heap_core s bs"
    by (simp_all add: heap_inv_def heap_ready_def)
  have "load_bytes (freed_mem (heap_start s) bs j (mem s)) a (unat w) = load_bytes (mem s) a (unat w)"
    if "(a, w) \<in> live_blocks (heap_start s) bs" for a w
    using live_untouched_by_free [OF core j that] unat_lt_u32 [of w]
    by (intro load_bytes_cong) auto
  then show ?thesis
    using kfree_payload [OF ready j used kfree_accepts(2) [OF core j pos]]
      free_keeps_inv [OF inv j used] live_free [OF core j used] free_blk_addr(1) [OF j]
    by (auto simp: p_def)
qed

text \<open>
  C5: What \<open>kmalloc\<close> hands out, \<open>kfree\<close> takes back without fragmentation: allocating a block
  and releasing it at once gives a heap with the same list of blocks as before.
\<close>

theorem kmalloc_kfree:
  fixes s :: "'a memory_state_scheme"
  assumes inv: "heap_inv s bs" and n: "n \<noteq> 0" "unat n \<le> 4294967288"
    and k: "kmalloc n s = Some (p, s')" and p: "p \<noteq> NULL"
  shows "\<exists>s''. kfree p s' = Some s'' \<and> heap_inv s'' bs \<and> heap_start s'' = heap_start s"
proof (cases rule: kmalloc_cases [OF inv n(1), case_names none some])
  case (none t)
  then show ?thesis using k p by simp
next
  case (some j t)
  let ?n = "align_up n MIN_ALLOC_ALIGN"
  let ?bs = "alloc_blk ?n j bs"
  have t: "t = s'" "p = payload (heap_start s) bs j" using some(1) k by simp_all
  have fit: "snd (bs ! j)" "?n \<le> fst (bs ! j)" using some(3) by (simp_all add: fits_def)
  have j': "j < length ?bs" using alloc_blk_length [OF some(2), of ?n] some(2) by simp
  have used: "\<not> snd (?bs ! j)" using alloc_blk_nth [OF some(2)] by simp
  have "n \<le> fst (?bs ! j)"
    using alloc_blk_size [OF some(2) fit(2)] align_up_bounds(1) [OF n(2)] by (simp add: word_le_nat_alt)
  then have pos: "fst (?bs ! j) \<noteq> 0" using n(1) by auto
  have inv': "heap_inv s' ?bs" using some(4) t by simp
  then have ready': "heap_ready s' ?bs" and core': "heap_core s' ?bs"
    by (simp_all add: heap_inv_def heap_ready_def)
  have p': "p = payload (heap_start s') ?bs j"
    using t some(5) alloc_blk_addr [of j bs j "heap_start s" ?n] some(2) by (simp add: payload_def)
  have "free_blk j ?bs = bs"
    using inv some(2) fit(1) by (intro free_alloc_blk) (simp_all add: heap_inv_def)
  then show ?thesis
    using kfree_payload [OF ready' j' used kfree_accepts(2) [OF core' j' pos]]
      free_keeps_inv [OF inv' j' used] some(5) t(1) p'
    by simp
qed

theorem kmalloc_kfree_witness:
  "\<exists>p s' s''. kmalloc 100 (memory_init 0x200000 static_memory_state) = Some (p, s') \<and>
     kfree p s' = Some s'' \<and> heap_inv s'' [(16777200, True)]"
proof -
  obtain p s' where k: "kmalloc 100 (memory_init 0x200000 static_memory_state) = Some (p, s')"
      "p \<noteq> NULL"
    using boot_kmalloc by blast
  from kmalloc_kfree [OF boot_heap_inv _ _ k] k(1) show ?thesis by auto
qed

text \<open>The heap after one allocation has one block in use.\<close>

lemma boot_used_block:
  "\<exists>s bs. heap_inv s bs \<and> bs \<noteq> [] \<and> \<not> snd (bs ! 0) \<and> fst (bs ! 0) = 104 \<and>
     kmalloc 100 (memory_init 0x200000 static_memory_state) = Some (payload (heap_start s) bs 0, s)"
proof (cases rule: kmalloc_cases [OF boot_heap_inv, of 100, case_names nz none some])
  case (none s')
  then show ?thesis by (simp add: fits_def align_up_def MIN_ALLOC_ALIGN_def)
next
  case (some j s')
  then have [simp]: "j = 0" by simp
  have "align_up 100 MIN_ALLOC_ALIGN = 104" by (simp add: align_up_def MIN_ALLOC_ALIGN_def)
  with some show ?thesis
    by (intro exI [of _ s'] exI [of _ "alloc_blk 104 0 [(16777200, True)]"])
      (simp add: alloc_blk_def carve_def payload_def)
qed simp

theorem kfree_correct_witness:
  "\<exists>s p s' bs. kmalloc 100 (memory_init 0x200000 static_memory_state) = Some (p, s) \<and>
     kfree p s = Some s' \<and> heap_inv s' bs"
proof -
  obtain s bs where s: "heap_inv s bs" "bs \<noteq> []" "\<not> snd (bs ! 0)" "fst (bs ! 0) = 104"
      "kmalloc 100 (memory_init 0x200000 static_memory_state) = Some (payload (heap_start s) bs 0, s)"
    using boot_used_block by blast
  from kfree_correct [OF s(1), of 0] s show ?thesis by auto
qed

lemma kfree_refuses:
  fixes s :: "'a memory_state_scheme"
  assumes inv: "heap_inv s bs" and p: "\<forall>z. (p, z) \<notin> live_blocks (heap_start s) bs"
  shows "\<exists>out. kfree p s = Some (s\<lparr>serial_out := serial_out s @ out\<rparr>)"
proof -
  from inv have ready: "heap_ready s bs" and core: "heap_core s bs"
    by (simp_all add: heap_inv_def heap_ready_def)
  consider "p = NULL" | "p \<noteq> NULL" "\<And>j. j < length bs \<Longrightarrow> payload (heap_start s) bs j \<noteq> p"
    | j where "j < length bs" "p = payload (heap_start s) bs j" by metis
  then show ?thesis
  proof cases
    case 1
    then show ?thesis by (auto simp: kfree_def intro!: exI [of _ "[]"])
  next
    case 2
    then show ?thesis by (rule kfree_untracked [OF ready])
  next
    case (3 j)
    then have free: "snd (bs ! j)" using p by (auto simp: live_blocks_iff)
    have "heap_initialized s \<noteq> 0" "heap_start s \<noteq> NULL" "p \<noteq> NULL"
      using core payload_nonnull [OF core 3(1)] 3(2) by (simp_all add: heap_core_def)
    then show ?thesis
      using kfree_double [OF ready 3(1) free] 3(2)
      by (cases "heap_start s + HEAP_PAGE_COUNT * PAGE_SIZE \<le> p")
        (auto simp: kfree_def serial_simps)
  qed
qed

text \<open>
  C9: \<open>kfree\<close> refuses what it must refuse: given a block that is already free, or a pointer
  that is not the start of a block, it returns with a message on the serial line and
  changes nothing else.
\<close>

theorem kfree_rejects:
  fixes s :: "'a memory_state_scheme"
  assumes inv: "heap_inv s bs" and p: "\<forall>z. (p, z) \<notin> live_blocks (heap_start s) bs"
  shows "\<exists>out. kfree p s = Some (s\<lparr>serial_out := serial_out s @ out\<rparr>)"
  using assms by (rule kfree_refuses)

theorem kfree_rejects_witness:
  "\<exists>out. kfree 0x200010 (memory_init 0x200000 static_memory_state) =
     Some ((memory_init 0x200000 static_memory_state)\<lparr>serial_out :=
        serial_out (memory_init 0x200000 static_memory_state) @ out\<rparr>)"
  using kfree_rejects [OF boot_heap_inv, of "0x200010"] by simp

subsection \<open>Zeroed and resized blocks\<close>



text \<open>
  C8: \<open>kcalloc\<close> refuses a request whose size does not fit in 32 bits: it returns NULL,
  with a message and nothing else changed.
\<close>

theorem kcalloc_overflow:
  assumes "unat num * unat sz \<ge> 2 ^ 32"
  shows "kcalloc num sz s = Some (NULL, msg ''[OS] [Memory] kcalloc: Size overflow'' s)"
proof -
  have "num \<noteq> 0" using assms by (intro notI) simp
  moreover have "0xFFFFFFFF div num < sz"
  proof (rule ccontr)
    assume "\<not> ?thesis"
    then have "unat sz \<le> 4294967295 div unat num" by (simp add: word_le_nat_alt unat_div not_less)
    then have "unat sz * unat num \<le> 4294967295 div unat num * unat num" by (rule mult_le_mono1)
    also have "\<dots> \<le> 4294967295" by (rule div_times_less_eq_dividend)
    finally show False using assms by (simp add: mult.commute)
  qed
  ultimately show ?thesis by (simp add: kcalloc_def)
qed

theorem kcalloc_overflow_witness:
  "kcalloc 0x10000 0x10000 static_memory_state =
     Some (NULL, msg ''[OS] [Memory] kcalloc: Size overflow'' static_memory_state)"
  using kcalloc_overflow [of "0x10000" "0x10000" static_memory_state] by simp





subsection \<open>Statistics\<close>




subsection \<open>Locks, interrupts and the rest of the state\<close>

lemma kmalloc_frame:
  fixes s :: "'a memory_state_scheme"
  assumes inv: "heap_inv s bs" and k: "kmalloc n s = Some (p, s')"
  shows "\<exists>m h t out. s' = s\<lparr>mem := m, heap_search_hint := h, total_allocated := t, serial_out := out\<rparr>"
proof (cases "n = 0")
  case True
  then have "s' = s"
    using inv k by (auto simp: kmalloc_def heap_inv_def heap_ready_def heap_core_def)
  then show ?thesis by (intro exI [of _ "mem s"] exI [of _ "heap_search_hint s"]
        exI [of _ "total_allocated s"] exI [of _ "serial_out s"]) simp
next
  case False
  from inv have ready: "heap_ready s bs" by (simp add: heap_inv_def)
  obtain j where hint: "hint_at s bs j"
    using hint_at_exists ready by (auto simp: heap_ready_def)
  show ?thesis
  proof (cases "next_fit (align_up n MIN_ALLOC_ALIGN) j bs")
    case None
    then obtain out where "s' = s\<lparr>mem := mem s, heap_search_hint := blk_addr (heap_start s) bs j,
        total_allocated := total_allocated s, serial_out := serial_out s @ out\<rparr>"
      using kmalloc_none [OF ready hint False None] k by auto
    then show ?thesis by blast
  next
    case (Some i)
    from kmalloc_some [OF ready hint False Some] k
    have "s' = s\<lparr>mem := mem s', heap_search_hint := heap_search_hint s',
        total_allocated := total_allocated s', serial_out := serial_out s\<rparr>"
      by simp
    then show ?thesis by blast
  qed
qed

lemma kfree_frame:
  fixes s :: "'a memory_state_scheme"
  assumes inv: "heap_inv s bs" and k: "kfree p s = Some s'"
  shows "\<exists>m h t out. s' = s\<lparr>mem := m, heap_search_hint := h, total_freed := t, serial_out := out\<rparr>"
proof (cases "\<exists>j < length bs. p = payload (heap_start s) bs j \<and> \<not> snd (bs ! j)")
  case False
  then have "\<forall>z. (p, z) \<notin> live_blocks (heap_start s) bs" by (auto simp: live_blocks_iff)
  then obtain out where "kfree p s = Some (s\<lparr>serial_out := serial_out s @ out\<rparr>)"
    using kfree_refuses [OF inv] by blast
  then have "s' = s\<lparr>mem := mem s, heap_search_hint := heap_search_hint s,
      total_freed := total_freed s, serial_out := serial_out s @ out\<rparr>"
    using k by simp
  then show ?thesis by blast
next
  case True
  then obtain j where j: "j < length bs" "p = payload (heap_start s) bs j" "\<not> snd (bs ! j)" by blast
  from inv have ready: "heap_ready s bs" and core: "heap_core s bs"
    by (simp_all add: heap_inv_def heap_ready_def)
  have nn: "heap_initialized s \<noteq> 0" "heap_start s \<noteq> NULL" "p \<noteq> NULL"
    using core payload_nonnull [OF core j(1)] j(2) by (simp_all add: heap_core_def)
  have "s' = s\<lparr>mem := mem s', heap_search_hint := heap_search_hint s',
      total_freed := total_freed s', serial_out := serial_out s'\<rparr>"
    using kfree_payload [OF ready j(1,3)] k j(2) nn
    by (cases "heap_start s + HEAP_PAGE_COUNT * PAGE_SIZE \<le> p") (auto simp: kfree_def serial_simps)
  then show ?thesis by blast
qed

text \<open>
  C11: Whatever they are asked, \<open>kmalloc\<close> and \<open>kfree\<close> return to their caller with the heap lock
  released and the processor flags, the interrupt flag among them, as they found them.
\<close>

theorem heap_lock_balanced:
  fixes s :: "'a memory_state_scheme"
  assumes "heap_inv s bs"
  shows "\<exists>q s1 s2. kmalloc n s = Some (q, s1) \<and> heap_lock s1 = 0 \<and> rflags s1 = rflags s \<and>
    kfree p s = Some s2 \<and> heap_lock s2 = 0 \<and> rflags s2 = rflags s"
proof -
  have lck: "heap_lock s = 0" using assms by (simp add: heap_inv_def heap_ready_def)
  obtain q s1 where 1: "kmalloc n s = Some (q, s1)" using kmalloc_keeps_inv [OF assms] by blast
  obtain s2 where 2: "kfree p s = Some s2" using kfree_keeps_inv [OF assms] by blast
  show ?thesis
    using kmalloc_frame [OF assms 1] kfree_frame [OF assms 2] 1 2 lck by auto
qed

theorem heap_lock_balanced_witness:
  "\<exists>q s1. kmalloc 100 (memory_init 0x200000 static_memory_state) = Some (q, s1) \<and>
     heap_lock s1 = 0 \<and> rflags s1 = rflags (memory_init 0x200000 static_memory_state)"
  using heap_lock_balanced [OF boot_heap_inv, of 100] by blast

text \<open>
  C12: The rounding of the request wraps: a request of more than 0xFFFFFFF8 bytes is rounded
  up to zero, and \<open>kmalloc\<close> answers it, in any heap with a free block, with a pointer to a
  block of fewer than 80 bytes instead of NULL.
\<close>

theorem kmalloc_wraps:
  fixes s :: "'a memory_state_scheme"
  assumes inv: "heap_inv s bs" and big: "unat n > 4294967288" and free: "\<exists>b \<in> set bs. snd b"
  shows "\<exists>p s' z. kmalloc n s = Some (p, s') \<and> p \<noteq> NULL \<and> unat z < 80 \<and>
    heap_live s' (insert (p, z) (live_blocks (heap_start s) bs))"
proof -
  have n: "n \<noteq> 0" using big by auto
  have n0: "align_up n MIN_ALLOC_ALIGN = 0" using big by (rule align_up_wraps)
  from inv have core: "heap_core s bs" by (simp add: heap_inv_def heap_ready_def)
  show ?thesis
  proof (cases rule: kmalloc_cases [OF inv n, case_names none some])
    case (none s')
    then show ?thesis using free n0 by (auto simp: fits_def)
  next
    case (some j s')
    have fr: "snd (bs ! j)" using some(3) by (simp add: fits_def)
    have "unat (fst (alloc_blk 0 j bs ! j)) < 80"
      using some(2) by (auto simp: alloc_blk_def carve_def nth_append)
    moreover have "heap_live s' (insert (payload (heap_start s) bs j, fst (alloc_blk 0 j bs ! j))
        (live_blocks (heap_start s) bs))"
      using some(4,5) live_alloc [OF heap_coreD(3) [OF core] some(2) fr, of 0] n0
      by (auto simp: heap_live_def)
    ultimately show ?thesis using some(1) payload_nonnull [OF core some(2)] by blast
  qed
qed

theorem kmalloc_wraps_witness:
  "\<exists>p s'. kmalloc 0xFFFFFFFF (memory_init 0x200000 static_memory_state) = Some (p, s') \<and> p \<noteq> NULL"
  using kmalloc_wraps [OF boot_heap_inv, of "0xFFFFFFFF"] by auto

end
