(* ===== verification/Page_Allocator.thy ===== *)
theory Page_Allocator
  imports Heap_Properties
begin

text \<open>
  The physical page allocator of \<open>Kernel/Memory/Memory_Main.c\<close>: one byte per page in
  \<open>page_bitmap\<close> (0 free, 1 used), filled from the firmware's memory map by
  \<open>init_physical_memory\<close> and used by \<open>alloc_page\<close> and \<open>free_page\<close>.
\<close>

definition MAX_PAGES :: u64 where "MAX_PAGES = 262144"

subsection \<open>Initialisation from the memory map\<close>











subsection \<open>Allocation and release of pages\<close>

definition lock_pages :: "'a memory_state_scheme \<Rightarrow> 'a memory_state_scheme option" where
  "lock_pages s = do {
     l \<leftarrow> spin_lock (page_lock s);
     Some (s\<lparr>page_lock := l\<rparr>)
   }"

definition unlock_pages :: "'a memory_state_scheme \<Rightarrow> 'a memory_state_scheme" where
  "unlock_pages s = s\<lparr>page_lock := spin_unlock (page_lock s)\<rparr>"

text \<open>The index of the first free page from the hint on, cyclically.\<close>

function alloc_page_scan :: "(nat \<Rightarrow> u8) \<Rightarrow> u32 \<Rightarrow> u64 \<Rightarrow> u64 option" where
  "alloc_page_scan bm hint offset =
     (if offset < MAX_PAGES
      then let i = (ucast hint + offset) mod MAX_PAGES
           in if bm (unat i) = 0 then Some i else alloc_page_scan bm hint (offset + 1)
      else None)"
  by pat_completeness auto
termination
  by (relation "measure (\<lambda>(bm, hint, offset). unat MAX_PAGES - unat offset)")
    (simp_all add: inc_measure)

declare alloc_page_scan.simps [simp del]

definition alloc_page ::
  "'a memory_state_scheme \<Rightarrow> (ptr \<times> 'a memory_state_scheme) option" where
  "alloc_page s = do {
     let (irq_flags, s) = irq_save_disable s;
     s \<leftarrow> lock_pages s;
     (case alloc_page_scan (page_bitmap s) (page_alloc_hint s) 0 of
        Some i \<Rightarrow>
          let s = s\<lparr>page_bitmap := (page_bitmap s)(unat i := 1),
                    page_alloc_hint := ucast ((i + 1) mod MAX_PAGES)\<rparr>
          in Some (i * PAGE_SIZE, irq_restore irq_flags (unlock_pages s))
      | None \<Rightarrow> Some (NULL, irq_restore irq_flags (unlock_pages s)))
   }"

definition free_page :: "ptr \<Rightarrow> 'a memory_state_scheme \<Rightarrow> 'a memory_state_scheme option" where
  "free_page addr s =
     (if addr = NULL then Some s
      else do {
        let page_num = addr div PAGE_SIZE;
        let (irq_flags, s) = irq_save_disable s;
        s \<leftarrow> lock_pages s;
        let s = (if page_num < MAX_PAGES
                 then let s = s\<lparr>page_bitmap := (page_bitmap s)(unat page_num := 0)\<rparr>
                      in if page_num < ucast (page_alloc_hint s)
                         then s\<lparr>page_alloc_hint := ucast page_num\<rparr> else s
                 else s);
        Some (irq_restore irq_flags (unlock_pages s))
      })"

subsection \<open>Marking\<close>





subsection \<open>The memory map\<close>









subsection \<open>The scan for a free page\<close>

lemma alloc_page_scan_find:
  assumes "unat offset \<le> 262144"
  shows "alloc_page_scan bm hint offset =
    map_option (\<lambda>k. of_nat ((unat hint + k) mod 262144))
      (find (\<lambda>k. bm ((unat hint + k) mod 262144) = 0) [unat offset..<262144])"
  using assms
proof (induction bm hint offset rule: alloc_page_scan.induct)
  case (1 bm hint offset)
  show ?case
  proof (cases "offset < MAX_PAGES")
    case True
    then have lt: "unat offset < 262144" by (simp add: word_less_nat_alt MAX_PAGES_def)
    let ?i = "(ucast hint + offset) mod MAX_PAGES"
    have "unat ((ucast hint :: u64) + offset) = unat hint + unat offset"
      using lt unat_lt_u32 [of hint] by (subst unat_add_noof) simp_all
    then have i: "unat ?i = (unat hint + unat offset) mod 262144"
      by (simp add: MAX_PAGES_def unat_mod)
    then have i': "?i = of_nat ((unat hint + unat offset) mod 262144)" using i by (metis of_nat_unat ucast_id)
    have upt: "[unat offset..<262144] = unat offset # [Suc (unat offset)..<262144]"
      using lt by (rule upt_conv_Cons)
    have s: "unat (offset + 1) = Suc (unat offset)" using True by (rule unat_inc_less)
    have step: "alloc_page_scan bm hint offset =
        (if bm (unat ?i) = 0 then Some ?i else alloc_page_scan bm hint (offset + 1))"
      using True by (subst alloc_page_scan.simps) (simp add: Let_def)
    show ?thesis
      using "1.IH" [OF True refl] lt s unfolding step i upt by (auto simp: i' simp del: of_nat_mod)
  next
    case False
    then show ?thesis
      using "1.prems" by (subst alloc_page_scan.simps) (simp add: word_less_nat_alt MAX_PAGES_def)
  qed
qed

lemma alloc_page_scan_complete:
  assumes "i < 262144" and "bm i = 0"
  shows "\<exists>k. find (\<lambda>k. bm ((unat (hint :: u32) + k) mod 262144) = 0) [0..<262144] = Some k"
proof (rule ccontr)
  assume "\<not> ?thesis"
  then have none: "\<forall>k < 262144. bm ((unat hint + k) mod 262144) \<noteq> 0"
    by (auto simp: find_None_iff not_Some_eq)
  define h q where "h = unat hint mod 262144" and "q = unat hint div 262144"
  then have "h < 262144" "unat hint = q * 262144 + h" by simp_all
  then have "unat hint + (i + 262144 - h) = i + (q + 1) * 262144" by simp
  then have "(unat hint + (i + 262144 - h) mod 262144) mod 262144 = i"
    using assms(1) by (metis mod_add_right_eq mod_less mod_mult_self1)
  then show False using none assms(2) by (metis mod_less_divisor zero_less_numeral)
qed

subsection \<open>The pool of free pages\<close>

text \<open>
  \<open>pool s F\<close>: the free pages of state \<open>s\<close> are \<open>F\<close>. A pool hands out one of its pages, or
  NULL when it is empty, and takes a page back.
\<close>

locale page_pool =
  fixes pool :: "'s \<Rightarrow> nat set \<Rightarrow> bool"
    and alloc :: "'s \<Rightarrow> (ptr \<times> 's) option"
    and dealloc :: "ptr \<Rightarrow> 's \<Rightarrow> 's option"
  assumes pool_pages: "pool s F \<Longrightarrow> F \<subseteq> {1..<262144}"
    and alloc_empty: "pool s {} \<Longrightarrow> \<exists>s'. alloc s = Some (NULL, s') \<and> pool s' {}"
    and alloc_page_law: "pool s F \<Longrightarrow> F \<noteq> {} \<Longrightarrow>
      \<exists>i s'. alloc s = Some (of_nat i * PAGE_SIZE, s') \<and> i \<in> F \<and> pool s' (F - {i})"
    and dealloc_page_law: "pool s F \<Longrightarrow> i \<in> {1..<262144} \<Longrightarrow>
      \<exists>s'. dealloc (of_nat i * PAGE_SIZE) s = Some s' \<and> pool s' (insert i F)"
begin

primrec alloc_many :: "nat \<Rightarrow> 's \<Rightarrow> (ptr list \<times> 's) option" where
  "alloc_many 0 s = Some ([], s)"
| "alloc_many (Suc n) s = do {
     (p, s) \<leftarrow> alloc s;
     (ps, s) \<leftarrow> alloc_many n s;
     Some (p # ps, s)
   }"

lemma page_addr: "i < 262144 \<Longrightarrow> unat (of_nat i * PAGE_SIZE :: u64) = i * 4096"
  by (simp add: PAGE_SIZE_def unat_of_nat_mult)

text \<open>Pages that are handed out one after the other are different pages.\<close>

lemma alloc_many_distinct:
  assumes "pool s F" and "n \<le> card F"
  shows "\<exists>is s'. alloc_many n s = Some (map (\<lambda>i. of_nat i * PAGE_SIZE) is, s') \<and>
    length is = n \<and> distinct is \<and> set is \<subseteq> F \<and> pool s' (F - set is)"
  using assms
proof (induction n arbitrary: s F)
  case 0
  then show ?case by auto
next
  case (Suc n)
  then have "F \<noteq> {}" by auto
  with alloc_page_law [OF Suc.prems(1)] obtain i s1 where
    1: "alloc s = Some (of_nat i * PAGE_SIZE, s1)" "i \<in> F" "pool s1 (F - {i})" by blast
  have "finite F" using pool_pages [OF Suc.prems(1)] finite_subset by blast
  then have "n \<le> card (F - {i})" using Suc.prems(2) 1(2) by simp
  from Suc.IH [OF 1(3) this] obtain "is" s' where
    2: "alloc_many n s1 = Some (map (\<lambda>i. of_nat i * PAGE_SIZE) is, s')" "length is = n"
      "distinct is" "set is \<subseteq> F - {i}" "pool s' (F - {i} - set is)"
    by blast
  have "F - {i} - set is = F - set (i # is)" by auto
  then show ?case
    using 1 2 by (intro exI [of _ "i # is"] exI [of _ s']) auto
qed

text \<open>A page that is taken and given back is in the pool again.\<close>

lemma alloc_dealloc_pool:
  assumes "pool s F" and "F \<noteq> {}"
  shows "\<exists>p s' s''. alloc s = Some (p, s') \<and> p \<noteq> NULL \<and> dealloc p s' = Some s'' \<and> pool s'' F"
proof -
  obtain i s' where 1: "alloc s = Some (of_nat i * PAGE_SIZE, s')" "i \<in> F" "pool s' (F - {i})"
    using alloc_page_law [OF assms] by blast
  have i: "i \<in> {1..<262144}" using pool_pages [OF assms(1)] 1(2) by blast
  obtain s'' where 2: "dealloc (of_nat i * PAGE_SIZE) s' = Some s''" "pool s'' (insert i (F - {i}))"
    using dealloc_page_law [OF 1(3) i] by blast
  have "insert i (F - {i}) = F" using 1(2) by auto
  moreover have "of_nat i * PAGE_SIZE \<noteq> (NULL :: ptr)" using page_addr [of i] i by auto
  ultimately show ?thesis using 1 2 by auto
qed

end

definition page_free_set :: "'a memory_state_scheme \<Rightarrow> nat set \<Rightarrow> bool" where
  "page_free_set s F \<longleftrightarrow> page_lock s = 0 \<and> F \<subseteq> {1..<262144} \<and>
     (\<forall>i < 262144. page_bitmap s i = 0 \<longleftrightarrow> i \<in> F)"

lemma page_critical:
  assumes "page_lock s = 0"
  shows "lock_pages (s\<lparr>rflags := rflags s AND NOT (push_bit 9 1)\<rparr>) =
      Some (s\<lparr>rflags := rflags s AND NOT (push_bit 9 1), page_lock := 1\<rparr>)"
    and "irq_restore (rflags s) (unlock_pages (s\<lparr>rflags := rflags s AND NOT (push_bit 9 1),
        page_lock := 1, page_bitmap := bm, page_alloc_hint := h\<rparr>)) =
      s\<lparr>page_bitmap := bm, page_alloc_hint := h\<rparr>"
proof -
  show "lock_pages (s\<lparr>rflags := rflags s AND NOT (push_bit 9 1)\<rparr>) =
      Some (s\<lparr>rflags := rflags s AND NOT (push_bit 9 1), page_lock := 1\<rparr>)"
    using assms by (simp add: lock_pages_def)
  let ?t = "unlock_pages (s\<lparr>rflags := rflags s AND NOT (push_bit 9 1), page_lock := 1,
      page_bitmap := bm, page_alloc_hint := h\<rparr>)"
  have "irq_restore (rflags s) ?t = ?t\<lparr>rflags := rflags s\<rparr>"
    by (rule irq_restore_saved) (simp add: unlock_pages_def)
  then show "irq_restore (rflags s) ?t = s\<lparr>page_bitmap := bm, page_alloc_hint := h\<rparr>"
    using assms by (simp add: unlock_pages_def spin_unlock_def)
qed


lemma alloc_page_effect:
  assumes "page_lock s = 0"
  shows "alloc_page s =
    (case find (\<lambda>k. page_bitmap s ((unat (page_alloc_hint s) + k) mod 262144) = 0) [0..<262144] of
       None \<Rightarrow> Some (NULL, s)
     | Some k \<Rightarrow>
         let i = (unat (page_alloc_hint s) + k) mod 262144
         in Some (of_nat i * PAGE_SIZE,
              s\<lparr>page_bitmap := (page_bitmap s)(i := 1),
                page_alloc_hint := ucast ((of_nat i + 1 :: u64) mod MAX_PAGES)\<rparr>))"
proof -
  let ?h = "page_alloc_hint s"
  have "unat (of_nat ((unat ?h + k) mod 262144) :: u64) = (unat ?h + k) mod 262144" for k
    using mod_less_divisor [of 262144 "unat ?h + k"] by (intro unat_of_nat_u64) linarith
  then show ?thesis
    using page_critical(1) [OF assms] page_critical(2) [OF assms, where bm = "page_bitmap s" and h = ?h]
      page_critical(2) [OF assms] alloc_page_scan_find [of 0 "page_bitmap s" ?h]
    by (cases "find (\<lambda>k. page_bitmap s ((unat ?h + k) mod 262144) = 0) [0..<262144]")
      (simp_all add: alloc_page_def irq_save_disable_def Let_def)
qed

lemma free_page_effect:
  assumes "page_lock s = 0" and "0 < i" and "i < 262144"
  shows "free_page (of_nat i * PAGE_SIZE) s =
    Some (s\<lparr>page_bitmap := (page_bitmap s)(i := 0),
      page_alloc_hint := (if of_nat i * PAGE_SIZE div PAGE_SIZE < (ucast (page_alloc_hint s) :: u64)
        then ucast (of_nat i * PAGE_SIZE div PAGE_SIZE :: u64) else page_alloc_hint s)\<rparr>)"
proof -
  let ?a = "of_nat i * PAGE_SIZE :: u64"
  have u: "unat ?a = i * 4096" using assms by (simp add: PAGE_SIZE_def unat_of_nat_mult)
  then have nn: "?a \<noteq> NULL" using assms(2) by auto
  have pn: "unat (?a div PAGE_SIZE) = i" using u by (simp add: unat_div PAGE_SIZE_def)
  have lt: "?a div PAGE_SIZE < MAX_PAGES"
    using pn assms(3) by (simp add: word_less_nat_alt MAX_PAGES_def)
  show ?thesis
    using nn lt pn page_critical(1) [OF assms(1)] page_critical(2) [OF assms(1), where bm = "(page_bitmap s)(i := 0)" and h = "page_alloc_hint s"]
      page_critical(2) [OF assms(1), where bm = "(page_bitmap s)(i := 0)" and h = "ucast (?a div PAGE_SIZE)"]
    by (auto simp: free_page_def irq_save_disable_def Let_def)
qed

interpretation pages: page_pool page_free_set alloc_page free_page
proof
  fix s :: "'a memory_state_scheme" and F :: "nat set"
  show "page_free_set s F \<Longrightarrow> F \<subseteq> {1..<262144}" by (simp add: page_free_set_def)
next
  fix s :: "'a memory_state_scheme"
  assume e: "page_free_set s {}"
  then have "find (\<lambda>k. page_bitmap s ((unat (page_alloc_hint s) + k) mod 262144) = 0) [0..<262144] = None"
    by (auto simp: find_None_iff page_free_set_def)
  then show "\<exists>s'. alloc_page s = Some (NULL, s') \<and> page_free_set s' {}"
    using e alloc_page_effect [of s] by (auto simp: page_free_set_def)
next
  fix s :: "'a memory_state_scheme" and F :: "nat set"
  assume pool: "page_free_set s F" and ne: "F \<noteq> {}"
  let ?h = "unat (page_alloc_hint s)"
  obtain k where k: "find (\<lambda>k. page_bitmap s ((?h + k) mod 262144) = 0) [0..<262144] = Some k"
    using alloc_page_scan_complete [of _ "page_bitmap s" "page_alloc_hint s"] pool ne
    by (fastforce simp: page_free_set_def)
  let ?i = "(?h + k) mod 262144"
  have i: "page_bitmap s ?i = 0" "?i < 262144" using find_SomeD(1) [OF k] by simp_all
  then have iF: "?i \<in> F" using pool by (simp add: page_free_set_def)
  let ?s = "s\<lparr>page_bitmap := (page_bitmap s)(?i := 1),
      page_alloc_hint := ucast ((of_nat ?i + 1 :: u64) mod MAX_PAGES)\<rparr>"
  have "alloc_page s = Some (of_nat ?i * PAGE_SIZE, ?s)"
    using alloc_page_effect [of s] pool k by (simp add: page_free_set_def Let_def del: of_nat_mod)
  moreover have "page_free_set ?s (F - {?i})"
    using pool by (auto simp: page_free_set_def)
  ultimately show "\<exists>i s'. alloc_page s = Some (of_nat i * PAGE_SIZE, s') \<and> i \<in> F \<and>
      page_free_set s' (F - {i})"
    using iF by blast
next
  fix s :: "'a memory_state_scheme" and F :: "nat set" and i :: nat
  assume "page_free_set s F" and "i \<in> {1..<262144}"
  then show "\<exists>s'. free_page (of_nat i * PAGE_SIZE) s = Some s' \<and> page_free_set s' (insert i F)"
    using free_page_effect [of s i] by (auto simp: page_free_set_def)
qed

subsection \<open>Properties\<close>







text \<open>
  A client of the page allocator, with the pages it holds: it asks for a page, or gives
  back a page it holds.
\<close>

inductive page_step ::
  "'a memory_state_scheme \<times> nat set \<Rightarrow> 'a memory_state_scheme \<times> nat set \<Rightarrow> bool" where
  step_page: "alloc_page s = Some (p, s') \<Longrightarrow> p \<noteq> NULL \<Longrightarrow>
    page_step (s, H) (s', insert (unat p div 4096) H)"
| step_no_page: "alloc_page s = Some (NULL, s') \<Longrightarrow> page_step (s, H) (s', H)"
| step_free_page: "i \<in> H \<Longrightarrow> free_page (of_nat i * PAGE_SIZE) s = Some s' \<Longrightarrow>
    page_step (s, H) (s', H - {i})"

lemma alloc_page_from_pool:
  assumes pool: "page_free_set s F" and "alloc_page s = Some (p, s')"
  shows "p \<noteq> NULL \<Longrightarrow> p = of_nat (unat p div 4096) * PAGE_SIZE \<and> unat p div 4096 \<in> F \<and>
      page_free_set s' (F - {unat p div 4096})"
    and "p = NULL \<Longrightarrow> F = {} \<and> page_free_set s' F"
proof -
  have *: "\<exists>i. p = of_nat i * PAGE_SIZE \<and> i = unat p div 4096 \<and> p \<noteq> NULL \<and> i \<in> F \<and>
      page_free_set s' (F - {i})" if ne: "F \<noteq> {}"
  proof -
    obtain i where i: "p = of_nat i * PAGE_SIZE" "i \<in> F" "page_free_set s' (F - {i})"
      using pages.alloc_page_law [OF pool ne] assms(2) by auto
    have "i \<in> {1..<262144}" using pages.pool_pages [OF pool] i(2) by blast
    then have "unat p = i * 4096" "0 < i" using pages.page_addr [of i] i(1) by simp_all
    then show ?thesis using i by (intro exI [of _ i]) auto
  qed
  have e: "p = NULL \<and> page_free_set s' F" if "F = {}"
    using pages.alloc_empty [of s] pool assms(2) that by auto
  show "p \<noteq> NULL \<Longrightarrow> p = of_nat (unat p div 4096) * PAGE_SIZE \<and> unat p div 4096 \<in> F \<and>
      page_free_set s' (F - {unat p div 4096})"
    using * e by (metis (full_types))
  show "p = NULL \<Longrightarrow> F = {} \<and> page_free_set s' F"
    using * e by (cases "F = {}") auto
qed

lemma page_step_inv:
  assumes "page_step c c'" and "page_free_set (fst c) (F - snd c)" and "snd c \<subseteq> F" and "F \<subseteq> {1..<262144}"
  shows "page_free_set (fst c') (F - snd c') \<and> snd c' \<subseteq> F"
  using assms
proof (induction rule: page_step.induct)
  case (step_page s p s' H)
  then have "unat p div 4096 \<in> F - H" "page_free_set s' (F - H - {unat p div 4096})"
    using alloc_page_from_pool(1) [of s "F - H" p s'] by auto
  moreover have "F - H - {unat p div 4096} = F - insert (unat p div 4096) H" by blast
  ultimately show ?case using step_page by auto
next
  case (step_no_page s s' H)
  then show ?case using alloc_page_from_pool(2) [of s "F - H" NULL s'] by auto
next
  case (step_free_page i H s s')
  then have "i \<in> {1..<262144}" by auto
  then have "page_free_set s' (insert i (F - H))"
    using pages.dealloc_page_law [of s "F - H" i] step_free_page by auto
  moreover have "insert i (F - H) = F - (H - {i})" using step_free_page by auto
  ultimately show ?case using step_free_page by auto
qed

text \<open>
  C19: A page is never handed out twice: starting with the free pages \<open>F\<close>, after any
  sequence of \<open>alloc_page\<close> and of \<open>free_page\<close> of held pages, the pages held are pages of \<open>F\<close>, the
  free pages are exactly the others, and the next page handed out is not one of those held.
\<close>

theorem page_ownership:
  fixes s0 :: "'a memory_state_scheme"
  assumes "page_free_set s0 F" and "page_step\<^sup>*\<^sup>* (s0, {}) (s, H)"
  shows "H \<subseteq> F \<and> page_free_set s (F - H) \<and>
    (\<forall>p s'. alloc_page s = Some (p, s') \<and> p \<noteq> NULL \<longrightarrow> unat p div 4096 \<in> F - H)"
proof -
  have F: "F \<subseteq> {1..<262144}" using assms(1) by (rule pages.pool_pages)
  have "page_free_set (fst c) (F - snd c) \<and> snd c \<subseteq> F" if "page_step\<^sup>*\<^sup>* (s0, {}) c" for c
    using that
  proof (induction rule: rtranclp_induct)
    case base
    then show ?case using assms(1) by simp
  next
    case (step y z)
    then show ?case using page_step_inv [OF step(2) _ _ F] by blast
  qed
  from this [OF assms(2)] have inv: "page_free_set s (F - H)" "H \<subseteq> F" by simp_all
  then show ?thesis using alloc_page_from_pool(1) [OF inv(1)] by blast
qed

definition two_pages_state :: memory_state where
  "two_pages_state = static_memory_state\<lparr>page_bitmap := (\<lambda>i. if i = 7 \<or> i = 9 then 0 else 1)\<rparr>"

lemma two_pages_pool: "page_free_set two_pages_state {7, 9}"
  by (auto simp: page_free_set_def two_pages_state_def static_memory_state_def)

theorem page_ownership_witness:
  "\<exists>p s'. alloc_page two_pages_state = Some (p, s') \<and>
     page_free_set s' ({7, 9} - {unat p div 4096})"
proof -
  obtain i s' where a: "alloc_page two_pages_state = Some (of_nat i * PAGE_SIZE, s')" "i \<in> {7, 9}"
    using pages.alloc_page_law [OF two_pages_pool] by blast
  have "of_nat i * PAGE_SIZE \<noteq> (NULL :: ptr)"
    using pages.page_addr [of i] a(2) by auto
  then have "page_step\<^sup>*\<^sup>* (two_pages_state, {})
      (s', insert (unat (of_nat i * PAGE_SIZE :: ptr) div 4096) {})"
    using a(1) by (intro r_into_rtranclp) (rule step_page)
  from page_ownership [OF two_pages_pool this] a(1) show ?thesis by auto
qed

text \<open>
  C20: Every free page can be had: \<open>alloc_page\<close> called as often as there are free pages returns
  the address of each of them once, and the call after that returns NULL.
\<close>

theorem alloc_page_exhaustive:
  fixes s :: "'a memory_state_scheme"
  assumes "page_free_set s F"
  shows "\<exists>is s' s''. pages.alloc_many (card F) s = Some (map (\<lambda>i. of_nat i * PAGE_SIZE) is, s') \<and>
    distinct is \<and> set is = F \<and> alloc_page s' = Some (NULL, s'')"
proof -
  have fin: "finite F" using pages.pool_pages [OF assms] finite_subset by blast
  from pages.alloc_many_distinct [OF assms order_refl] obtain "is" s' where
    1: "pages.alloc_many (card F) s = Some (map (\<lambda>i. of_nat i * PAGE_SIZE) is, s')"
      "length is = card F" "distinct is" "set is \<subseteq> F" "page_free_set s' (F - set is)"
    by blast
  have "set is = F"
    using fin 1(2,3,4) by (metis card_subset_eq distinct_card)
  with pages.alloc_empty [of s'] 1(5) obtain s'' where "alloc_page s' = Some (NULL, s'')" by auto
  with 1 \<open>set is = F\<close> show ?thesis by blast
qed

theorem alloc_page_exhaustive_witness:
  "\<exists>is s' s''. pages.alloc_many 2 two_pages_state = Some (map (\<lambda>i. of_nat i * PAGE_SIZE) is, s') \<and>
     distinct is \<and> set is = {7, 9} \<and> alloc_page s' = Some (NULL, s'')"
proof -
  have "card {7, 9 :: nat} = 2" by simp
  then show ?thesis using alloc_page_exhaustive [OF two_pages_pool] by (simp only:)
qed

end
