(* ===== verification/Process_Manager.thy ===== *)
theory Process_Manager
  imports Heap_Properties
begin

text \<open>
  The process table and the round-robin scheduler of
  \<open>Kernel/ProcessManager/ProcessManager_Create.c\<close>. A process is a slot of the table; the
  scheduler runs at the end of every system call and saves and restores the address of
  the register frame and the user stack pointer of a process.
\<close>

definition PROCESS_MAX_COUNT :: int where "PROCESS_MAX_COUNT = 16"
definition PROCESS_STACK_SIZE :: u32 where "PROCESS_STACK_SIZE = 16 * 1024"
definition PROCESS_RFLAGS_DEFAULT :: u64 where "PROCESS_RFLAGS_DEFAULT = 0x202"
definition PROCESS_STATE_UNUSED :: u8 where "PROCESS_STATE_UNUSED = 0"
definition PROCESS_STATE_READY :: u8 where "PROCESS_STATE_READY = 1"
definition PROCESS_STATE_RUNNING :: u8 where "PROCESS_STATE_RUNNING = 2"
definition PROCESS_STATE_DEAD :: u8 where "PROCESS_STATE_DEAD = 3"

text \<open>Positions in the register frame of a system call, in 8-byte words.\<close>

definition SYSCALL_FRAME_RAX :: u64 where "SYSCALL_FRAME_RAX = 0"
definition SYSCALL_FRAME_RCX :: u64 where "SYSCALL_FRAME_RCX = 13"
definition SYSCALL_FRAME_R11 :: u64 where "SYSCALL_FRAME_R11 = 14"
definition SYSCALL_FRAME_QWORDS :: u64 where "SYSCALL_FRAME_QWORDS = 15"

record process =
  state :: u8
  entry :: u64
  saved_rsp :: u64
  saved_user_rsp :: u64
  stack_base :: ptr

record process_state = memory_state +
  g_processes :: "process list"
  g_current_pid :: int

definition set_process ::
  "int \<Rightarrow> (process \<Rightarrow> process) \<Rightarrow> 'a process_state_scheme \<Rightarrow> 'a process_state_scheme" where
  "set_process i f s = s\<lparr>g_processes := (g_processes s)[nat i := f (g_processes s ! nat i)]\<rparr>"

definition process_at :: "'a process_state_scheme \<Rightarrow> int \<Rightarrow> process" where
  "process_at s i = g_processes s ! nat i"

subsection \<open>The search loops\<close>

function find_free_slot_loop :: "int \<Rightarrow> 'a process_state_scheme \<Rightarrow> int" where
  "find_free_slot_loop i s =
     (if i < PROCESS_MAX_COUNT
      then if state (process_at s i) = PROCESS_STATE_UNUSED \<or>
              state (process_at s i) = PROCESS_STATE_DEAD
           then i else find_free_slot_loop (i + 1) s
      else - 1)"
  by pat_completeness auto
termination
  by (relation "measure (\<lambda>(i, s). nat (PROCESS_MAX_COUNT - i))") simp_all

declare find_free_slot_loop.simps [simp del]

definition find_free_slot :: "'a process_state_scheme \<Rightarrow> int" where
  "find_free_slot s = find_free_slot_loop 0 s"

function pick_first_loop :: "int \<Rightarrow> 'a process_state_scheme \<Rightarrow> int" where
  "pick_first_loop i s =
     (if i < PROCESS_MAX_COUNT
      then if state (process_at s i) = PROCESS_STATE_READY \<or>
              state (process_at s i) = PROCESS_STATE_RUNNING
           then i else pick_first_loop (i + 1) s
      else - 1)"
  by pat_completeness auto
termination
  by (relation "measure (\<lambda>(i, s). nat (PROCESS_MAX_COUNT - i))") simp_all

declare pick_first_loop.simps [simp del]

function pick_next_loop :: "int \<Rightarrow> int \<Rightarrow> 'a process_state_scheme \<Rightarrow> int option" where
  "pick_next_loop current_pid step s =
     (if step \<le> PROCESS_MAX_COUNT
      then let idx = (current_pid + step) mod PROCESS_MAX_COUNT
           in if state (process_at s idx) = PROCESS_STATE_READY then Some idx
              else pick_next_loop current_pid (step + 1) s
      else None)"
  by pat_completeness auto
termination
  by (relation "measure (\<lambda>(c, i, s). nat (PROCESS_MAX_COUNT + 1 - i))") simp_all

declare pick_next_loop.simps [simp del]

definition pick_next_ready :: "int \<Rightarrow> 'a process_state_scheme \<Rightarrow> int" where
  "pick_next_ready current_pid s =
     (if current_pid < 0 then pick_first_loop 0 s
      else case pick_next_loop current_pid 1 s of
        Some idx \<Rightarrow> idx
      | None \<Rightarrow>
          if state (process_at s current_pid) = PROCESS_STATE_RUNNING \<or>
             state (process_at s current_pid) = PROCESS_STATE_READY
          then current_pid else - 1)"

subsection \<open>Operations\<close>

function process_manager_init_loop ::
  "int \<Rightarrow> 'a process_state_scheme \<Rightarrow> 'a process_state_scheme" where
  "process_manager_init_loop i s =
     (if i < PROCESS_MAX_COUNT
      then process_manager_init_loop (i + 1)
             (set_process i (\<lambda>p. p\<lparr>state := PROCESS_STATE_UNUSED, entry := 0, saved_rsp := 0,
                saved_user_rsp := 0, stack_base := NULL\<rparr>) s)
      else s)"
  by pat_completeness auto
termination
  by (relation "measure (\<lambda>(i, s). nat (PROCESS_MAX_COUNT - i))") simp_all

declare process_manager_init_loop.simps [simp del]

definition process_manager_init :: "'a process_state_scheme \<Rightarrow> 'a process_state_scheme" where
  "process_manager_init s = (process_manager_init_loop 0 s)\<lparr>g_current_pid := - 1\<rparr>"

definition process_register_boot_process ::
  "u64 \<Rightarrow> u64 \<Rightarrow> 'a process_state_scheme \<Rightarrow> int \<times> 'a process_state_scheme" where
  "process_register_boot_process ent user_stack_top s =
     (let pid = find_free_slot s
      in if pid < 0 then (- 1, msg ''[OS] [PROC] No free slot for boot process'' s)
         else let s = set_process pid (\<lambda>p. p\<lparr>state := PROCESS_STATE_RUNNING, entry := ent,
                        saved_rsp := user_stack_top, saved_user_rsp := user_stack_top,
                        stack_base := NULL\<rparr>) s;
                  s = s\<lparr>g_current_pid := pid\<rparr>
              in (pid, msg ''[OS] [PROC] Boot process registered'' s))"

function clear_frame_loop :: "ptr \<Rightarrow> u32 \<Rightarrow> memory \<Rightarrow> memory" where
  "clear_frame_loop frame i m =
     (if i < ucast SYSCALL_FRAME_QWORDS
      then clear_frame_loop frame (i + 1) (store64 (frame + 8 * ucast i) 0 m) else m)"
  by pat_completeness auto
termination
  by (relation "measure (\<lambda>(frame, i, m). unat (ucast SYSCALL_FRAME_QWORDS :: u32) - unat i)")
    (simp_all add: inc_measure)

declare clear_frame_loop.simps [simp del]

definition process_create_user ::
  "u64 \<Rightarrow> 'a process_state_scheme \<Rightarrow> (int \<times> 'a process_state_scheme) option" where
  "process_create_user ent s =
     (if ent = 0 then Some (- 1, s)
      else let pid = find_free_slot s
      in if pid < 0 then Some (- 1, msg ''[OS] [PROC] No free slot for process create'' s)
      else do {
        (stack, s) \<leftarrow> kmalloc PROCESS_STACK_SIZE s;
        if stack = NULL then Some (- 1, msg ''[OS] [PROC] Stack allocation failed'' s)
        else do {
          let stack_top = (stack + ucast PROCESS_STACK_SIZE) AND NOT 0xF;
          let frame = stack_top - SYSCALL_FRAME_QWORDS * 8;
          let s = s\<lparr>mem := clear_frame_loop frame 0 (mem s)\<rparr>;
          let s = s\<lparr>mem := store64 (frame + 8 * SYSCALL_FRAME_RCX) ent (mem s)\<rparr>;
          let s = s\<lparr>mem := store64 (frame + 8 * SYSCALL_FRAME_R11) PROCESS_RFLAGS_DEFAULT (mem s)\<rparr>;
          let s = set_process pid (\<lambda>p. p\<lparr>state := PROCESS_STATE_READY, entry := ent,
                    saved_rsp := frame, saved_user_rsp := stack_top, stack_base := stack\<rparr>) s;
          Some (pid, s)
        }
      })"

definition process_exit_current :: "'a process_state_scheme \<Rightarrow> 'a process_state_scheme" where
  "process_exit_current s =
     (if g_current_pid s < 0 \<or> g_current_pid s \<ge> PROCESS_MAX_COUNT then s
      else set_process (g_current_pid s) (\<lambda>p. p\<lparr>state := PROCESS_STATE_DEAD\<rparr>) s)"

text \<open>
  The out parameter \<open>next_user_rsp_out\<close> is the value it points to, with \<open>None\<close> for NULL;
  its new value is returned. Halting for lack of a runnable process is \<open>None\<close>.
\<close>

definition process_schedule_on_syscall ::
  "u64 \<Rightarrow> u64 \<Rightarrow> bool \<Rightarrow> u64 option \<Rightarrow> 'a process_state_scheme \<Rightarrow>
   (u64 \<times> u64 option \<times> 'a process_state_scheme) option" where
  "process_schedule_on_syscall current_saved_rsp current_user_rsp request_switch next_user_rsp_out s =
     (let out = map_option (\<lambda>_. current_user_rsp) next_user_rsp_out
      in if g_current_pid s < 0 \<or> g_current_pid s \<ge> PROCESS_MAX_COUNT
      then Some (current_saved_rsp, out, msg ''[OS] [PROC] Invalid current PID'' s)
      else
        let cur = g_current_pid s;
            s = (if state (process_at s cur) = PROCESS_STATE_RUNNING \<or>
                    state (process_at s cur) = PROCESS_STATE_READY
                 then let s = set_process cur (\<lambda>p. p\<lparr>saved_rsp := current_saved_rsp,
                                saved_user_rsp := current_user_rsp\<rparr>) s
                      in if state (process_at s cur) \<noteq> PROCESS_STATE_DEAD
                         then set_process cur (\<lambda>p. p\<lparr>state := PROCESS_STATE_READY\<rparr>) s else s
                 else s)
        in if \<not> request_switch \<and> state (process_at s cur) \<noteq> PROCESS_STATE_DEAD
        then let s = set_process cur (\<lambda>p. p\<lparr>state := PROCESS_STATE_RUNNING\<rparr>) s;
                 out = map_option (\<lambda>_. saved_user_rsp (process_at s cur)) out
             in Some (saved_rsp (process_at s cur), out, s)
        else let next_pid = pick_next_ready cur s
        in if next_pid < 0 then None
        else let s = s\<lparr>g_current_pid := next_pid\<rparr>;
                 s = set_process next_pid (\<lambda>p. p\<lparr>state := PROCESS_STATE_RUNNING\<rparr>) s;
                 out = map_option (\<lambda>_. saved_user_rsp (process_at s next_pid)) out
             in Some (saved_rsp (process_at s next_pid), out, s))"

end
