(* ===== verification/Process_Scheduling.thy ===== *)
theory Process_Scheduling
  imports Process_Manager
begin

text \<open>
  The searches of the process table as searches in lists, the effect of the scheduler on the
  table, and the fairness of round-robin scheduling.
\<close>

subsection \<open>Reading and writing the table\<close>

lemmas pstate_defs = PROCESS_STATE_UNUSED_def PROCESS_STATE_READY_def PROCESS_STATE_RUNNING_def
  PROCESS_STATE_DEAD_def

lemma process_at_set [simp]:
  assumes "length (g_processes s) = 16" and "0 \<le> i" "i < 16" "0 \<le> j" "j < 16"
  shows "process_at (set_process i f s) j = (if i = j then f (process_at s j) else process_at s j)"
  using assms by (auto simp: process_at_def set_process_def nth_list_update nat_eq_iff)

lemma set_process_fields [simp]:
  "length (g_processes (set_process i f s)) = length (g_processes s)"
  "g_current_pid (set_process i f s) = g_current_pid s"
  "mem (set_process i f s) = mem s"
  by (simp_all add: set_process_def)

lemma process_at_frame [simp]:
  "process_at (s\<lparr>g_current_pid := c\<rparr>) i = process_at s i"
  "process_at (s\<lparr>mem := m\<rparr>) i = process_at s i"
  "process_at (s\<lparr>serial_out := out\<rparr>) i = process_at s i"
  by (simp_all add: process_at_def)

subsection \<open>The searches\<close>

definition slot_free :: "'a process_state_scheme \<Rightarrow> int \<Rightarrow> bool" where
  "slot_free s i \<longleftrightarrow> state (process_at s i) = PROCESS_STATE_UNUSED \<or>
     state (process_at s i) = PROCESS_STATE_DEAD"

definition ready :: "'a process_state_scheme \<Rightarrow> int \<Rightarrow> bool" where
  "ready s i \<longleftrightarrow> state (process_at s i) = PROCESS_STATE_READY"

lemma find_free_slot_loop_find:
  "find_free_slot_loop i s = (case find (slot_free s) [i..15] of None \<Rightarrow> - 1 | Some r \<Rightarrow> r)"
proof (induction i s rule: find_free_slot_loop.induct)
  case (1 i s)
  then show ?case
    by (subst find_free_slot_loop.simps, subst upto.simps)
      (auto simp: PROCESS_MAX_COUNT_def slot_free_def [symmetric])
qed

lemma pick_next_loop_find:
  "pick_next_loop c step s = find (ready s) (map (\<lambda>d. (c + d) mod 16) [step..16])"
proof (induction c step s rule: pick_next_loop.induct)
  case (1 c step s)
  then show ?case
    by (subst pick_next_loop.simps, subst upto.simps)
      (auto simp: PROCESS_MAX_COUNT_def ready_def [symmetric] Let_def)
qed

text \<open>The free slot with the least index, and the nearest ready process behind the current one.\<close>

lemma find_upto:
  "find P [i..j] = Some r \<longleftrightarrow> i \<le> r \<and> r \<le> j \<and> P r \<and> (\<forall>k. i \<le> k \<and> k < r \<longrightarrow> \<not> P k)"
  for i j :: int
proof (induction i j rule: upto.induct)
  case (1 i j)
  have *: "i \<le> k \<longleftrightarrow> k = i \<or> i + 1 \<le> k" for k by linarith
  show ?case
  proof (cases "i \<le> j \<and> \<not> P i")
    case True
    then show ?thesis using 1 by (subst upto.simps) (auto simp: *)
  next
    case False
    then consider "\<not> i \<le> j" | "i \<le> j" "P i" by blast
    then show ?thesis
    proof cases
      case 2
      then have "find P [i..j] = Some r \<longleftrightarrow> r = i" by (subst upto.simps) auto
      moreover have "\<not> (\<forall>k. i \<le> k \<and> k < r \<longrightarrow> \<not> P k)" if "i < r" using 2 that by auto
      ultimately show ?thesis using 2 by (cases "r = i") auto
    qed (subst upto.simps, auto)
  qed
qed

lemma find_free_slot_cases:
  obtains (none) "find_free_slot s = - 1" and "\<And>j. 0 \<le> j \<Longrightarrow> j < 16 \<Longrightarrow> \<not> slot_free s j"
  | (some) r where "find_free_slot s = r" and "0 \<le> r" and "r < 16" and "slot_free s r"
      and "\<And>j. 0 \<le> j \<Longrightarrow> j < r \<Longrightarrow> \<not> slot_free s j"
proof (cases "find (slot_free s) [0..15]")
  case None
  then have "find_free_slot s = - 1" by (simp add: find_free_slot_def find_free_slot_loop_find)
  with None show ?thesis by (intro none) (auto simp: find_None_iff)
next
  case (Some r)
  then have "find_free_slot s = r" by (simp add: find_free_slot_def find_free_slot_loop_find)
  with Some show ?thesis by (intro some) (auto simp: find_upto)
qed

lemma find_map: "find P (map f xs) = map_option f (find (P \<circ> f) xs)"
  by (induction xs) auto

lemma pick_next_ready_nearest:
  assumes "0 \<le> c" "c < 16" and "1 \<le> d" "d \<le> 16" and "ready s ((c + d) mod 16)"
    and "\<And>e. 1 \<le> e \<Longrightarrow> e < d \<Longrightarrow> \<not> ready s ((c + e) mod 16)"
  shows "pick_next_ready c s = (c + d) mod 16"
proof -
  have "find (ready s \<circ> (\<lambda>d. (c + d) mod 16)) [1..16] = Some d"
    using assms by (auto simp: find_upto)
  then show ?thesis using assms(1) by (simp add: pick_next_ready_def pick_next_loop_find find_map)
qed

lemma pick_next_ready_none:
  assumes "0 \<le> c" "c < 16" and "\<And>i. 0 \<le> i \<Longrightarrow> i < 16 \<Longrightarrow> \<not> ready s i"
  shows "pick_next_ready c s = (if state (process_at s c) = PROCESS_STATE_RUNNING then c else - 1)"
proof -
  have "find (ready s) (map (\<lambda>d. (c + d) mod 16) [1..16]) = None"
    using assms(3) by (auto simp: find_None_iff)
  moreover have "state (process_at s c) \<noteq> PROCESS_STATE_READY"
    using assms by (simp add: ready_def)
  ultimately show ?thesis
    using assms(1) by (simp add: pick_next_ready_def pick_next_loop_find)
qed

text \<open>The distance from one slot to another, going round the table.\<close>

definition distance :: "int \<Rightarrow> int \<Rightarrow> int" where
  "distance c p = (if (p - c) mod 16 = 0 then 16 else (p - c) mod 16)"

lemma distance_bounds: "1 \<le> distance c p" "distance c p \<le> 16"
  using pos_mod_bound [of 16 "p - c"] pos_mod_sign [of 16 "p - c"]
  by (auto simp: distance_def simp del: pos_mod_bound pos_mod_sign)

lemma distance_reaches: "0 \<le> p \<Longrightarrow> p < 16 \<Longrightarrow> (c + distance c p) mod 16 = p"
proof -
  assume p: "0 \<le> p" "p < 16"
  have "(c + distance c p) mod 16 = (c + (p - c)) mod 16"
    by (cases "(p - c) mod 16 = 0") (metis distance_def mod_add_right_eq mod_self, simp add: distance_def mod_add_right_eq)
  then show ?thesis using p by simp
qed

lemma pick_next_ready_cases:
  assumes c: "0 \<le> c" "c < 16" and p: "0 \<le> p" "p < 16" "ready s p"
  obtains d where "1 \<le> d" "d \<le> distance c p" "pick_next_ready c s = (c + d) mod 16"
    "ready s ((c + d) mod 16)" "\<And>e. 1 \<le> e \<Longrightarrow> e < d \<Longrightarrow> \<not> ready s ((c + e) mod 16)"
proof -
  have "ready s ((c + distance c p) mod 16)" using p distance_reaches by simp
  then have "find (ready s \<circ> (\<lambda>d. (c + d) mod 16)) [1..distance c p] \<noteq> None"
    using distance_bounds by (auto simp: find_None_iff)
  then obtain d where d: "1 \<le> d" "d \<le> distance c p" "ready s ((c + d) mod 16)"
      "\<And>e. 1 \<le> e \<Longrightarrow> e < d \<Longrightarrow> \<not> ready s ((c + e) mod 16)"
    by (auto simp: find_upto)
  then have "pick_next_ready c s = (c + d) mod 16"
    using distance_bounds [of c p] c by (intro pick_next_ready_nearest) auto
  with d show thesis by (intro that)
qed


subsection \<open>The scheduler\<close>

definition running :: "'a process_state_scheme \<Rightarrow> int \<Rightarrow> bool" where
  "running s i \<longleftrightarrow> state (process_at s i) = PROCESS_STATE_RUNNING"

definition dead :: "'a process_state_scheme \<Rightarrow> int \<Rightarrow> bool" where
  "dead s i \<longleftrightarrow> state (process_at s i) = PROCESS_STATE_DEAD"

lemmas slot_defs = running_def ready_def dead_def slot_free_def

text \<open>
  The table has its 16 slots, the current process is one of them or there is none yet, and
  no other process is running.
\<close>

definition proc_inv :: "'a process_state_scheme \<Rightarrow> bool" where
  "proc_inv s \<longleftrightarrow> length (g_processes s) = 16 \<and> - 1 \<le> g_current_pid s \<and> g_current_pid s < 16 \<and>
     (\<forall>i. 0 \<le> i \<and> i < 16 \<and> running s i \<longrightarrow> i = g_current_pid s)"

definition proc_running :: "'a process_state_scheme \<Rightarrow> bool" where
  "proc_running s \<longleftrightarrow> proc_inv s \<and> 0 \<le> g_current_pid s \<and> running s (g_current_pid s)"

text \<open>The table with the context of the current process saved, ready for the next pick.\<close>

definition save_current :: "u64 \<Rightarrow> u64 \<Rightarrow> 'a process_state_scheme \<Rightarrow> 'a process_state_scheme" where
  "save_current r u s =
     set_process (g_current_pid s)
       (\<lambda>p. p\<lparr>saved_rsp := r, saved_user_rsp := u, state := PROCESS_STATE_READY\<rparr>) s"

definition resume :: "int \<Rightarrow> 'a process_state_scheme \<Rightarrow> 'a process_state_scheme" where
  "resume n s = set_process n (\<lambda>p. p\<lparr>state := PROCESS_STATE_RUNNING\<rparr>) (s\<lparr>g_current_pid := n\<rparr>)"

lemma set_process_twice:
  "length (g_processes s) = 16 \<Longrightarrow> 0 \<le> i \<Longrightarrow> i < 16 \<Longrightarrow>
   set_process i f (set_process i g s) = set_process i (f \<circ> g) s"
  by (simp add: set_process_def)

lemma proc_runningD:
  assumes "proc_running s"
  shows "length (g_processes s) = 16" "0 \<le> g_current_pid s" "g_current_pid s < 16"
    "running s (g_current_pid s)" "\<And>i. 0 \<le> i \<Longrightarrow> i < 16 \<Longrightarrow> running s i \<Longrightarrow> i = g_current_pid s"
  using assms by (simp_all add: proc_running_def proc_inv_def)

lemma save_current_at:
  assumes "proc_running s" and "0 \<le> i" "i < 16"
  shows "process_at (save_current r u s) i =
    (if i = g_current_pid s
     then (process_at s i)\<lparr>saved_rsp := r, saved_user_rsp := u, state := PROCESS_STATE_READY\<rparr>
     else process_at s i)"
  using proc_runningD(1-3) [OF assms(1)] assms(2,3) by (auto simp: save_current_def)

lemma ready_save_current:
  assumes "proc_running s" and "0 \<le> i" "i < 16"
  shows "ready (save_current r u s) i \<longleftrightarrow> ready s i \<or> i = g_current_pid s"
  using save_current_at [OF assms, of r u] by (simp add: ready_def)

lemma save_current_fields [simp]:
  "length (g_processes (save_current r u s)) = length (g_processes s)"
  "g_current_pid (save_current r u s) = g_current_pid s"
  by (simp_all add: save_current_def)

text \<open>Without a request to switch the process goes on with the context it came with.\<close>

lemma schedule_stay:
  assumes run: "proc_running s"
  shows "process_schedule_on_syscall r u False out s =
    Some (r, map_option (\<lambda>_. u) out,
      set_process (g_current_pid s) (\<lambda>p. p\<lparr>saved_rsp := r, saved_user_rsp := u\<rparr>) s)"
proof -
  note d = proc_runningD [OF run]
  have "(\<lambda>p. p\<lparr>saved_rsp := r, saved_user_rsp := u, state := PROCESS_STATE_RUNNING\<rparr>) (process_at s (g_current_pid s))
      = (\<lambda>p. p\<lparr>saved_rsp := r, saved_user_rsp := u\<rparr>) (process_at s (g_current_pid s))"
    using d(4) by (cases "process_at s (g_current_pid s)") (simp add: running_def)
  then have eq: "set_process (g_current_pid s)
      (\<lambda>p. p\<lparr>saved_rsp := r, saved_user_rsp := u, state := PROCESS_STATE_RUNNING\<rparr>) s =
      set_process (g_current_pid s) (\<lambda>p. p\<lparr>saved_rsp := r, saved_user_rsp := u\<rparr>) s"
    by (simp add: set_process_def process_at_def)
  show ?thesis
    using d(1-4) eq
    by (auto simp: process_schedule_on_syscall_def PROCESS_MAX_COUNT_def Let_def running_def pstate_defs
        set_process_twice comp_def option.map_comp)
qed

text \<open>With a request it saves the context and resumes the nearest ready process.\<close>

lemma schedule_switch:
  fixes r u :: u64 and s :: "'a process_state_scheme"
  assumes run: "proc_running s"
  defines "s1 \<equiv> save_current r u s"
  defines "n \<equiv> pick_next_ready (g_current_pid s) s1"
  assumes n: "0 \<le> n" "n < 16"
  shows "process_schedule_on_syscall r u True out s =
    Some (saved_rsp (process_at s1 n), map_option (\<lambda>_. saved_user_rsp (process_at s1 n)) out,
      resume n s1)"
proof -
  note d = proc_runningD [OF run]
  have s1: "set_process (g_current_pid s) (\<lambda>p. p\<lparr>state := PROCESS_STATE_READY\<rparr>)
      (set_process (g_current_pid s) (\<lambda>p. p\<lparr>saved_rsp := r, saved_user_rsp := u\<rparr>) s) = s1"
    using d(1-4) by (simp add: s1_def save_current_def set_process_twice comp_def)
  have [simp]: "length (g_processes s1) = 16" "g_current_pid s1 = g_current_pid s"
    using d(1-4) by (simp_all add: s1_def)
  show ?thesis
    using d(1-4) n unfolding n_def
    by (simp add: process_schedule_on_syscall_def PROCESS_MAX_COUNT_def Let_def running_def pstate_defs
        s1 [unfolded pstate_defs] resume_def option.map_comp comp_def)
qed


lemma distance_step:
  assumes "1 \<le> d" "d < distance c p"
  shows "distance ((c + d) mod 16) p = distance c p - d"
proof -
  define x where "x = (p - c) mod 16"
  have x: "0 \<le> x" "x < 16" by (simp_all add: x_def)
  have "(p - (c + d) mod 16) mod 16 = (p - (c + d)) mod 16" by (rule mod_diff_right_eq)
  also have "\<dots> = (x - d) mod 16"
    unfolding x_def mod_diff_left_eq by (simp add: algebra_simps)
  finally have m: "(p - (c + d) mod 16) mod 16 = (x - d) mod 16" .
  show ?thesis
  proof (cases "x = 0")
    case True
    then have dist: "distance c p = 16" by (simp add: distance_def x_def)
    have "(0 - d) mod 16 = (16 - d) mod 16" by (metis diff_0 mod_add_self1 uminus_add_conv_diff add.commute)
    also have "\<dots> = 16 - d" using assms dist by (intro mod_pos_pos_trivial) auto
    finally have "(0 - d) mod 16 = 16 - d" .
    then show ?thesis using m True dist assms by (simp add: distance_def)
  next
    case False
    then have dist: "distance c p = x" by (simp add: distance_def x_def)
    then have "(x - d) mod 16 = x - d" using assms x by (intro mod_pos_pos_trivial) auto
    then show ?thesis using m dist assms by (simp add: distance_def)
  qed
qed

lemma resume_at:
  assumes "length (g_processes s) = 16" "0 \<le> n" "n < 16" "0 \<le> i" "i < 16"
  shows "process_at (resume n s) i =
    (if i = n then (process_at s i)\<lparr>state := PROCESS_STATE_RUNNING\<rparr> else process_at s i)"
  using assms by (auto simp: resume_def)

lemma resume_fields [simp]:
  "g_current_pid (resume n s) = n" "length (g_processes (resume n s)) = length (g_processes s)"
  "mem (resume n s) = mem s"
  by (simp_all add: resume_def)

text \<open>What a switch does to the table.\<close>

lemma switch_effect:
  assumes run: "proc_running s" and p: "0 \<le> p" "p < 16" "ready (save_current r u s) p"
  obtains d n where "1 \<le> d" "d \<le> distance (g_current_pid s) p" "n = (g_current_pid s + d) mod 16"
    and "ready (save_current r u s) n"
    and "\<And>e. 1 \<le> e \<Longrightarrow> e < d \<Longrightarrow> \<not> ready (save_current r u s) ((g_current_pid s + e) mod 16)"
    and "process_schedule_on_syscall r u True out s =
      Some (saved_rsp (process_at (save_current r u s) n),
        map_option (\<lambda>_. saved_user_rsp (process_at (save_current r u s) n)) out,
        resume n (save_current r u s))"
    and "proc_running (resume n (save_current r u s))"
proof -
  note d = proc_runningD [OF run]
  let ?s = "save_current r u s" and ?c = "g_current_pid s"
  obtain e where e: "1 \<le> e" "e \<le> distance ?c p" "pick_next_ready ?c ?s = (?c + e) mod 16"
      "ready ?s ((?c + e) mod 16)" "\<And>k. 1 \<le> k \<Longrightarrow> k < e \<Longrightarrow> \<not> ready ?s ((?c + k) mod 16)"
    using pick_next_ready_cases [OF d(2,3) p] by blast
  let ?n = "(?c + e) mod 16"
  have n: "0 \<le> ?n" "?n < 16" by simp_all
  have sched: "process_schedule_on_syscall r u True out s =
      Some (saved_rsp (process_at ?s ?n), map_option (\<lambda>_. saved_user_rsp (process_at ?s ?n)) out,
        resume ?n ?s)"
    using schedule_switch [OF run, of r u out] e(3) by simp
  have "running (resume ?n ?s) i \<longleftrightarrow> i = ?n" if "0 \<le> i" "i < 16" for i
  proof (cases "i = ?n")
    case True
    then show ?thesis using resume_at [of ?s ?n i] d(1) n that by (simp add: running_def)
  next
    case False
    then have "process_at (resume ?n ?s) i = process_at ?s i"
      using resume_at [of ?s ?n i] d(1) n that by simp
    then have "\<not> running (resume ?n ?s) i"
      using save_current_at [OF run that, of r u] d(5) [OF that]
      by (cases "i = ?c") (auto simp: running_def pstate_defs)
    with False show ?thesis by simp
  qed
  then have "proc_running (resume ?n ?s)"
    using d(1) n by (auto simp: proc_running_def proc_inv_def)
  then show thesis using that e(1,2,4,5) sched by blast
qed

lemma switch_running:
  assumes "proc_running s"
  shows "\<exists>r' out' s'. process_schedule_on_syscall r u True out s = Some (r', out', s') \<and> proc_running s'"
proof -
  note d = proc_runningD [OF assms]
  have "ready (save_current r u s) (g_current_pid s)"
    using ready_save_current [OF assms d(2,3)] by simp
  then show ?thesis using switch_effect [OF assms d(2,3), of r u out] by metis
qed

subsection \<open>Round-robin scheduling is fair\<close>

text \<open>Successive yields; each pair is the context with which the running process yields.\<close>

primrec yields :: "(u64 \<times> u64) list \<Rightarrow> 'a process_state_scheme \<Rightarrow> 'a process_state_scheme option" where
  "yields [] s = Some s"
| "yields (c # cs) s = do {
     (_, _, s) \<leftarrow> process_schedule_on_syscall (fst c) (snd c) True None s;
     yields cs s
   }"

lemma yields_reach:
  assumes "proc_running s" and "ready s p" "0 \<le> p" "p < 16"
    and "distance (g_current_pid s) p \<le> int (length cs)"
  shows "\<exists>n s'. n \<le> nat (distance (g_current_pid s) p) \<and> yields (take n cs) s = Some s' \<and>
    g_current_pid s' = p"
  using assms
proof (induction cs arbitrary: s)
  case Nil
  then show ?case using distance_bounds(1) [of "g_current_pid s" p] by simp
next
  case (Cons c cs)
  obtain r u where c: "c = (r, u)" by (cases c)
  note d = proc_runningD [OF Cons.prems(1)]
  let ?s = "save_current r u s" and ?c = "g_current_pid s"
  have "ready ?s p" using ready_save_current [OF Cons.prems(1,3,4)] Cons.prems(2) by simp
  then obtain k n where k: "1 \<le> k" "k \<le> distance ?c p" "n = (?c + k) mod 16"
      "process_schedule_on_syscall r u True None s =
        Some (saved_rsp (process_at ?s n), None, resume n ?s)"
      "proc_running (resume n ?s)"
    using switch_effect [OF Cons.prems(1,3,4), of r u None] by (metis option.map(1))
  show ?case
  proof (cases "k = distance ?c p")
    case True
    then have "n = p" using k(3) distance_reaches [OF Cons.prems(3,4)] by simp
    then show ?thesis
      using k c True by (intro exI [of _ 1] exI [of _ "resume n ?s"]) auto
  next
    case False
    then have lt: "k < distance ?c p" using k(2) by simp
    have dist: "distance n p = distance ?c p - k" using distance_step [OF k(1) lt] k(3) by simp
    have pc: "p \<noteq> ?c" using Cons.prems(2) d(4) by (auto simp: ready_def running_def pstate_defs)
    have "n \<noteq> p"
    proof
      assume "n = p"
      then have "distance n p = 16" by (simp add: distance_def)
      then show False using dist k(1) distance_bounds(2) [of ?c p] by simp
    qed
    then have "ready (resume n ?s) p"
      using Cons.prems(2-4) pc resume_at [of ?s n p] save_current_at [OF Cons.prems(1,3,4), of r u] d(1) k(3)
      by (simp add: ready_def)
    moreover have "distance (g_current_pid (resume n ?s)) p \<le> int (length cs)"
      using Cons.prems(5) dist k(1) by simp
    ultimately obtain m s' where m: "m \<le> nat (distance n p)" "yields (take m cs) (resume n ?s) = Some s'"
        "g_current_pid s' = p"
      using Cons.IH [OF k(5)] Cons.prems(3,4) by auto
    have "Suc m \<le> nat (distance ?c p)" using m(1) dist k(1) lt by linarith
    then show ?thesis
      using m c k(4) by (intro exI [of _ "Suc m"] exI [of _ s']) simp
  qed
qed

end
