(* ===== verification/Process_Properties.thy ===== *)
theory Process_Properties
  imports Process_Scheduling
begin

text \<open>
  Creation, registration and exit of processes, the invariant that at most one process runs,
  and the properties of the process manager. Creation is a client of the allocator contract.
\<close>

subsection \<open>The frame of a new process\<close>









text \<open>The frame as \<open>process_create_user\<close> leaves it: the entry point in RCX, the flags in R11.\<close>

definition new_frame :: "u64 \<Rightarrow> ptr \<Rightarrow> memory \<Rightarrow> memory" where
  "new_frame ent f m =
     store64 (f + 8 * SYSCALL_FRAME_R11) PROCESS_RFLAGS_DEFAULT
       (store64 (f + 8 * SYSCALL_FRAME_RCX) ent (clear_frame_loop f 0 m))"




subsection \<open>Creating a process\<close>

lemma kmalloc_keeps_table:
  assumes "kmalloc n s = Some (p, s')"
  shows "g_processes s' = g_processes s" "g_current_pid s' = g_current_pid s"
  using assms
  by (auto simp: kmalloc_def kmalloc_locked_def irq_save_disable_def irq_restore_def lock_heap_def
      unlock_heap_def serial_simps Let_def split: if_splits option.splits bind_splits)


text \<open>The state of the table slot that \<open>process_create_user\<close> fills.\<close>

definition new_process :: "u64 \<Rightarrow> ptr \<Rightarrow> process \<Rightarrow> process" where
  "new_process ent stack p =
     (let top = (stack + ucast PROCESS_STACK_SIZE) AND NOT 0xF
      in p\<lparr>state := PROCESS_STATE_READY, entry := ent, saved_rsp := top - 120,
           saved_user_rsp := top, stack_base := stack\<rparr>)"

lemma create_user_unfold:
  assumes "ent \<noteq> 0" and "0 \<le> find_free_slot s"
  shows "process_create_user ent s = do {
     (stack, t) \<leftarrow> kmalloc PROCESS_STACK_SIZE s;
     if stack = NULL then Some (- 1, msg ''[OS] [PROC] Stack allocation failed'' t)
     else Some (find_free_slot s, set_process (find_free_slot s) (new_process ent stack)
            (t\<lparr>mem := new_frame ent (((stack + ucast PROCESS_STACK_SIZE) AND NOT 0xF) - 120) (mem t)\<rparr>))
   }"
  using assms
  by (simp add: process_create_user_def Let_def new_process_def [abs_def] new_frame_def
      SYSCALL_FRAME_QWORDS_def cong: if_cong)


lemma heap_live_table [simp]:
  "heap_live (s\<lparr>g_processes := ps\<rparr>) L = heap_live s L"
  "heap_live (s\<lparr>g_current_pid := c\<rparr>) L = heap_live s L"
  "heap_live (set_process i f s) L = heap_live s L"
  by (simp_all add: heap_live_def heap_inv_def heap_ready_def heap_core_def set_process_def)

lemma heap_live_serial [simp]: "heap_live (s\<lparr>serial_out := x\<rparr>) L = heap_live s L"
  by (simp add: heap_live_def)


lemma proc_inv_set_ready:
  assumes "proc_inv s" and "0 \<le> i" "i < 16" and "\<And>p. state (f p) \<noteq> PROCESS_STATE_RUNNING"
    and "\<not> running s i"
  shows "proc_inv (set_process i f s)"
  using assms by (auto simp: proc_inv_def running_def split: if_splits)

lemma proc_inv_frame [simp]:
  "proc_inv (s\<lparr>serial_out := x\<rparr>) = proc_inv s" "proc_inv (s\<lparr>mem := m\<rparr>) = proc_inv s"
  by (simp_all add: proc_inv_def running_def)

lemma proc_inv_cong:
  assumes "g_processes t = g_processes s" "g_current_pid t = g_current_pid s"
  shows "proc_inv t = proc_inv s" "running t = running s" "ready t = ready s" "dead t = dead s"
    "slot_free t = slot_free s" "process_at t = process_at s"
  using assms by (simp_all add: proc_inv_def slot_defs process_at_def fun_eq_iff)




subsection \<open>Initialisation and exit\<close>

lemma init_loop_table:
  assumes "0 \<le> k" and "length (g_processes s) = 16"
  shows "length (g_processes (process_manager_init_loop k s)) = 16 \<and>
    (\<forall>i. k \<le> i \<and> i < 16 \<longrightarrow> state (process_at (process_manager_init_loop k s) i) = PROCESS_STATE_UNUSED) \<and>
    (\<forall>i. 0 \<le> i \<and> i < k \<and> i < 16 \<longrightarrow> process_at (process_manager_init_loop k s) i = process_at s i)"
  using assms
proof (induction k s rule: process_manager_init_loop.induct)
  case (1 k s)
  show ?case
  proof (cases "k < 16")
    case False
    then show ?thesis
      using "1.prems" by (subst (1 2 3) process_manager_init_loop.simps) (auto simp: PROCESS_MAX_COUNT_def)
  next
    case True
    let ?f = "\<lambda>p. p\<lparr>state := PROCESS_STATE_UNUSED, entry := 0, saved_rsp := 0, saved_user_rsp := 0,
      stack_base := NULL\<rparr>"
    let ?s = "set_process k ?f s"
    have step: "process_manager_init_loop k s = process_manager_init_loop (k + 1) ?s"
      using True by (subst process_manager_init_loop.simps) (simp add: PROCESS_MAX_COUNT_def)
    have ih: "length (g_processes (process_manager_init_loop (k + 1) ?s)) = 16 \<and>
        (\<forall>i. k + 1 \<le> i \<and> i < 16 \<longrightarrow>
          state (process_at (process_manager_init_loop (k + 1) ?s) i) = PROCESS_STATE_UNUSED) \<and>
        (\<forall>i. 0 \<le> i \<and> i < k + 1 \<and> i < 16 \<longrightarrow>
          process_at (process_manager_init_loop (k + 1) ?s) i = process_at ?s i)"
      using "1.IH" True "1.prems" by (simp add: PROCESS_MAX_COUNT_def)
    have at: "process_at ?s i = (if i = k then ?f (process_at s i) else process_at s i)"
      if "0 \<le> i" "i < 16" for i
      using that True "1.prems" by simp
    have *: "k \<le> i \<longleftrightarrow> i = k \<or> k + 1 \<le> i" for i by linarith
    show ?thesis unfolding step using ih at True "1.prems"(1) by (auto simp: *)
  qed
qed

lemma process_manager_init_table:
  assumes "length (g_processes s) = 16"
  shows "proc_inv (process_manager_init s)" "g_current_pid (process_manager_init s) = - 1"
    "0 \<le> i \<Longrightarrow> i < 16 \<Longrightarrow> state (process_at (process_manager_init s) i) = PROCESS_STATE_UNUSED"
proof -
  from init_loop_table [of 0 s] assms
  have u: "length (g_processes (process_manager_init s)) = 16"
    "\<And>i. 0 \<le> i \<Longrightarrow> i < 16 \<Longrightarrow> state (process_at (process_manager_init s) i) = PROCESS_STATE_UNUSED"
    by (simp_all add: process_manager_init_def)
  then show "0 \<le> i \<Longrightarrow> i < 16 \<Longrightarrow> state (process_at (process_manager_init s) i) = PROCESS_STATE_UNUSED"
    by blast
  show "g_current_pid (process_manager_init s) = - 1" by (simp add: process_manager_init_def)
  then show "proc_inv (process_manager_init s)"
    using u by (auto simp: proc_inv_def running_def pstate_defs)
qed

lemma boot_process_running:
  assumes "length (g_processes s0) = 16"
  defines "s \<equiv> process_manager_init s0"
  shows "fst (process_register_boot_process ent ust s) = 0"
    and "proc_running (snd (process_register_boot_process ent ust s))"
    and "g_current_pid (snd (process_register_boot_process ent ust s)) = 0"
    and "0 \<le> k \<Longrightarrow> k < 16 \<Longrightarrow> \<not> ready (snd (process_register_boot_process ent ust s)) k"
proof -
  note i = process_manager_init_table [OF assms(1), folded s_def]
  have len: "length (g_processes s) = 16" using i(1) by (simp add: proc_inv_def)
  have f: "find_free_slot s = 0"
  proof (cases rule: find_free_slot_cases [of s, case_names none some])
    case none
    then show ?thesis using i(3) [of 0] by (simp add: slot_free_def)
  next
    case (some r)
    then show ?thesis using i(3) [of 0] by (cases "r = 0") (auto simp: slot_free_def)
  qed
  let ?g = "\<lambda>p. p\<lparr>state := PROCESS_STATE_RUNNING, entry := ent, saved_rsp := ust,
    saved_user_rsp := ust, stack_base := NULL\<rparr>"
  let ?s = "(set_process 0 ?g s)\<lparr>g_current_pid := 0\<rparr>"
  have reg: "process_register_boot_process ent ust s = (0, msg ''[OS] [PROC] Boot process registered'' ?s)"
    using f by (simp add: process_register_boot_process_def Let_def)
  have "running ?s k \<longleftrightarrow> k = 0" if "0 \<le> k" "k < 16" for k
    using that len i(3) [OF that] by (auto simp: running_def pstate_defs)
  then have "proc_running ?s" using len by (auto simp: proc_running_def proc_inv_def)
  then show "fst (process_register_boot_process ent ust s) = 0"
    "proc_running (snd (process_register_boot_process ent ust s))"
    "g_current_pid (snd (process_register_boot_process ent ust s)) = 0"
    by (simp_all add: reg serial_simps proc_running_def running_def)
  assume "0 \<le> k" "k < 16"
  then show "\<not> ready (snd (process_register_boot_process ent ust s)) k"
    using len i(3) [of k] by (simp add: reg serial_simps ready_def pstate_defs)
qed

lemma exit_effect:
  assumes run: "proc_running s"
  shows "proc_inv (process_exit_current s)" "dead (process_exit_current s) (g_current_pid s)"
    "g_current_pid (process_exit_current s) = g_current_pid s"
    "\<And>i. 0 \<le> i \<Longrightarrow> i < 16 \<Longrightarrow> i \<noteq> g_current_pid s \<Longrightarrow>
       process_at (process_exit_current s) i = process_at s i"
proof -
  note d = proc_runningD [OF run]
  have e: "process_exit_current s = set_process (g_current_pid s) (\<lambda>p. p\<lparr>state := PROCESS_STATE_DEAD\<rparr>) s"
    using d(2,3) by (simp add: process_exit_current_def PROCESS_MAX_COUNT_def)
  show at: "\<And>i. 0 \<le> i \<Longrightarrow> i < 16 \<Longrightarrow> i \<noteq> g_current_pid s \<Longrightarrow>
       process_at (process_exit_current s) i = process_at s i"
    and dd: "dead (process_exit_current s) (g_current_pid s)"
    and "g_current_pid (process_exit_current s) = g_current_pid s"
    using d(1-4) by (simp_all add: e dead_def)
  have "\<not> running (process_exit_current s) i" if i: "0 \<le> i" "i < 16" for i
  proof (cases "i = g_current_pid s")
    case True
    then show ?thesis using dd by (simp add: running_def dead_def pstate_defs)
  next
    case False
    then show ?thesis using at [OF i False] d(5) [OF i] by (auto simp: running_def)
  qed
  then show "proc_inv (process_exit_current s)"
    using d(1-3) by (auto simp: proc_inv_def e)
qed

lemma schedule_dead:
  fixes s :: "'a process_state_scheme"
  assumes inv: "proc_inv s" and cur: "0 \<le> g_current_pid s" "dead s (g_current_pid s)"
  defines "n \<equiv> pick_next_ready (g_current_pid s) s"
  shows "process_schedule_on_syscall r u sw out s =
    (if n < 0 then None
     else Some (saved_rsp (process_at (resume n s) n),
       map_option (\<lambda>_. saved_user_rsp (process_at (resume n s) n)) out, resume n s))"
proof -
  have "g_current_pid s < 16" using inv by (simp add: proc_inv_def)
  with cur show ?thesis
    by (simp add: process_schedule_on_syscall_def PROCESS_MAX_COUNT_def Let_def dead_def pstate_defs
        resume_def n_def option.map_comp comp_def)
qed


subsection \<open>Properties\<close>

text \<open>The kernel with its heap set up and its first process registered.\<close>

definition static_process_state :: process_state where
  "static_process_state =
     \<lparr>mem = (\<lambda>_. 0), serial_out = [], rflags = 0x202,
      heap_start = NULL, heap_search_hint = NULL, heap_initialized = 0,
      total_allocated = 0, total_freed = 0, heap_start_page = 0, heap_lock = 0,
      page_bitmap = (\<lambda>_. 0), page_lock = 0, page_alloc_hint = 0,
      g_processes = replicate 16 \<lparr>state = 0, entry = 0, saved_rsp = 0, saved_user_rsp = 0, stack_base = NULL\<rparr>,
      g_current_pid = - 1\<rparr>"

definition first_process :: process_state where
  "first_process = snd (process_register_boot_process 0x400000 0x500000
     (process_manager_init (memory_init 0x200000 static_process_state)))"

lemma memory_init_table [simp]:
  "g_processes (memory_init ke s) = g_processes s" "g_current_pid (memory_init ke s) = g_current_pid s"
  by (simp_all add: memory_init_def calc_heap_start_page_def serial_simps Let_def)

lemma first_process_running: "proc_running first_process" "g_current_pid first_process = 0"
  using boot_process_running(2,3) [of "memory_init 0x200000 static_process_state" "0x400000" "0x500000"]
  by (simp_all add: first_process_def) (simp_all add: static_process_state_def)

lemma first_process_not_ready: "0 \<le> k \<Longrightarrow> k < 16 \<Longrightarrow> \<not> ready first_process k"
  using boot_process_running(4) [of "memory_init 0x200000 static_process_state" k "0x400000" "0x500000"]
  unfolding first_process_def by (simp add: static_process_state_def)

text \<open>The same with a second process waiting in slot 5.\<close>

definition two_processes :: process_state where
  "two_processes = set_process 5 (\<lambda>p. p\<lparr>state := PROCESS_STATE_READY, saved_rsp := 0x3000,
     saved_user_rsp := 0x4000\<rparr>) first_process"

lemma two_processes_running: "proc_running two_processes" "ready two_processes 5" "g_current_pid two_processes = 0"
proof -
  note d = proc_runningD [OF first_process_running(1)]
  have "\<not> running first_process 5" using d(5) [of 5] first_process_running(2) by auto
  then show "proc_running two_processes" "ready two_processes 5" "g_current_pid two_processes = 0"
    using first_process_running d(1,4)
      proc_inv_set_ready [of first_process 5 "\<lambda>p. p\<lparr>state := PROCESS_STATE_READY, saved_rsp := 0x3000, saved_user_rsp := 0x4000\<rparr>"]
    by (simp_all add: two_processes_def proc_running_def running_def ready_def pstate_defs)
qed




text \<open>
  C14: Round-robin scheduling is fair: from a running system, a process that is ready gets
  the processor after at most as many yields as it is slots away from the current process
  (so after at most 15), whatever contexts the yielding processes save.
\<close>

theorem scheduler_fair:
  fixes s :: "'a process_state_scheme"
  assumes "proc_running s" and "ready s p" "0 \<le> p" "p < 16" and "length cs = 15"
  shows "\<exists>n s'. n \<le> nat (distance (g_current_pid s) p) \<and> n \<le> 15 \<and>
    yields (take n cs) s = Some s' \<and> g_current_pid s' = p"
proof -
  have "p \<noteq> g_current_pid s"
    using assms(1,2) by (auto simp: proc_running_def running_def ready_def pstate_defs)
  moreover have "(p - g_current_pid s) mod 16 = 0 \<longleftrightarrow> p mod 16 = g_current_pid s mod 16"
    by (rule mod_eq_dvd_iff [symmetric, unfolded dvd_eq_mod_eq_0])
  ultimately have "(p - g_current_pid s) mod 16 \<noteq> 0"
    using assms(3,4) proc_runningD(2,3) [OF assms(1)] by simp
  then have "distance (g_current_pid s) p \<noteq> 16" by (simp add: distance_def)
  then have "distance (g_current_pid s) p \<le> 15" using distance_bounds(2) [of "g_current_pid s" p] by simp
  then show ?thesis
    using yields_reach [OF assms(1-4), of cs] assms(5) by fastforce
qed

text \<open>
  C15: The complete effect of a yield. The scheduler saves the context of the running
  process and makes it ready, picks the nearest ready process behind it in the table
  (itself when no other is ready), returns that process's saved frame and stack pointer,
  and marks it as the one running; every other process is left as it was.
\<close>

theorem schedule_switch_correct:
  fixes s :: "'a process_state_scheme"
  assumes run: "proc_running s"
  shows "\<exists>d n s'. 1 \<le> d \<and> d \<le> 16 \<and> n = (g_current_pid s + d) mod 16 \<and>
    (d = 16 \<or> ready s n) \<and> (\<forall>e. 1 \<le> e \<and> e < d \<longrightarrow> \<not> ready s ((g_current_pid s + e) mod 16)) \<and>
    process_schedule_on_syscall r u True (Some v) s =
      (if d = 16 then Some (r, Some u, s')
       else Some (saved_rsp (process_at s n), Some (saved_user_rsp (process_at s n)), s')) \<and>
    proc_running s' \<and> g_current_pid s' = n \<and>
    (\<forall>i. 0 \<le> i \<and> i < 16 \<longrightarrow> process_at s' i =
       (let p = if i = g_current_pid s
                then (process_at s i)\<lparr>saved_rsp := r, saved_user_rsp := u, state := PROCESS_STATE_READY\<rparr>
                else process_at s i
        in if i = n then p\<lparr>state := PROCESS_STATE_RUNNING\<rparr> else p))"
proof -
  note d = proc_runningD [OF run]
  let ?s = "save_current r u s" and ?c = "g_current_pid s"
  have "ready ?s ?c" using ready_save_current [OF run d(2,3)] by simp
  then obtain k n where k: "1 \<le> k" "k \<le> distance ?c ?c" "n = (?c + k) mod 16" "ready ?s n"
      "\<And>e. 1 \<le> e \<Longrightarrow> e < k \<Longrightarrow> \<not> ready ?s ((?c + e) mod 16)"
      "process_schedule_on_syscall r u True (Some v) s =
        Some (saved_rsp (process_at ?s n), Some (saved_user_rsp (process_at ?s n)), resume n ?s)"
      "proc_running (resume n ?s)"
    using switch_effect [OF run d(2,3), of r u "Some v"] by (metis option.map(2))
  have k16: "k \<le> 16" using k(2) by (simp add: distance_def)
  have n: "0 \<le> n" "n < 16" using k(3) by simp_all
  have nc: "n = ?c \<longleftrightarrow> k = 16"
  proof
    assume "n = ?c"
    then have "(?c + k) mod 16 = (?c + 0) mod 16" using k(3) d(2,3) by simp
    then have "k mod 16 = 0" by (simp only: mod_eq_dvd_iff) (simp add: dvd_eq_mod_eq_0)
    then show "k = 16" using k(1) k16 by (cases "k = 16") auto
  qed (use k(3) d(2,3) in simp)
  have "\<not> ready s ((?c + e) mod 16)" if "1 \<le> e" "e < k" for e
    using k(5) [OF that] ready_save_current [OF run, of "(?c + e) mod 16" r u] by simp
  moreover have "k = 16 \<or> ready s n" using k(4) nc ready_save_current [OF run n, of r u] by auto
  moreover have "process_at (resume n ?s) i =
      (let p = if i = ?c then (process_at s i)\<lparr>saved_rsp := r, saved_user_rsp := u, state := PROCESS_STATE_READY\<rparr>
               else process_at s i
       in if i = n then p\<lparr>state := PROCESS_STATE_RUNNING\<rparr> else p)" if "0 \<le> i" "i < 16" for i
    using resume_at [of ?s n i] save_current_at [OF run that, of r u] that n d(1)
    by (cases "i = n"; cases "i = ?c") (simp_all add: Let_def)
  ultimately show ?thesis
    using k(1,3,6,7) k16 nc save_current_at [OF run n, of r u]
    by (intro exI [of _ k] exI [of _ n] exI [of _ "resume n ?s"]) auto
qed

theorem schedule_switch_correct_witness:
  "\<exists>s'. process_schedule_on_syscall 0x1000 0x2000 True (Some 0) first_process = Some (0x1000, Some 0x2000, s') \<and>
     proc_running s'"
  using schedule_switch_correct [OF first_process_running(1), of "0x1000" "0x2000" 0] first_process_not_ready
  by auto

theorem scheduler_fair_witness:
  "\<exists>n s'. n \<le> 5 \<and> yields (take n (replicate 15 (0x1000, 0x2000))) two_processes = Some s' \<and> g_current_pid s' = 5"
  using scheduler_fair [OF two_processes_running(1,2), of "replicate 15 (0x1000, 0x2000)"] two_processes_running(3)
  by (auto simp: distance_def)


subsection \<open>At most one process runs\<close>

lemma pick_first_loop_find:
  "pick_first_loop i s = (case find (\<lambda>k. ready s k \<or> running s k) [i..15] of None \<Rightarrow> - 1 | Some r \<Rightarrow> r)"
proof (induction i s rule: pick_first_loop.induct)
  case (1 i s)
  then show ?case
    by (subst pick_first_loop.simps, subst upto.simps)
      (auto simp: PROCESS_MAX_COUNT_def ready_def [symmetric] running_def [symmetric])
qed

lemma pick_next_ready_range:
  assumes "c < 16"
  shows "- 1 \<le> pick_next_ready c s" "pick_next_ready c s < 16"
proof -
  have "find (\<lambda>k. ready s k \<or> running s k) [0..15] = Some r \<Longrightarrow> 0 \<le> r \<and> r < 16" for r
    by (auto simp: find_upto)
  moreover have "pick_next_loop c 1 s = Some r \<Longrightarrow> 0 \<le> r \<and> r < 16" for r
    by (auto simp: pick_next_loop_find find_map)
  ultimately show "- 1 \<le> pick_next_ready c s" "pick_next_ready c s < 16"
    using assms
    by (fastforce simp: pick_next_ready_def pick_first_loop_find split: option.splits)+
qed

lemma resume_inv:
  assumes "length (g_processes t) = 16" and "\<And>i. 0 \<le> i \<Longrightarrow> i < 16 \<Longrightarrow> \<not> running t i"
    and "0 \<le> n" "n < 16"
  shows "proc_running (resume n t)"
proof -
  have "running (resume n t) i \<longleftrightarrow> i = n" if "0 \<le> i" "i < 16" for i
    using resume_at [OF assms(1,3,4) that] assms(2) [OF that] by (simp add: running_def)
  then show ?thesis using assms by (auto simp: proc_running_def proc_inv_def)
qed

lemma schedule_keeps_inv:
  assumes inv: "proc_inv s" and "process_schedule_on_syscall r u sw out s = Some (r', out', s')"
  shows "proc_inv s'"
proof (cases "g_current_pid s < 0")
  case True
  then show ?thesis using assms by (auto simp: process_schedule_on_syscall_def Let_def serial_simps)
next
  case False
  let ?c = "g_current_pid s"
  have c: "0 \<le> ?c" "?c < 16" "length (g_processes s) = 16" using inv False by (simp_all add: proc_inv_def)
  define s1 where "s1 = (if state (process_at s ?c) = PROCESS_STATE_RUNNING \<or>
      state (process_at s ?c) = PROCESS_STATE_READY then save_current r u s else s)"
  have save: "(let s2 = set_process ?c (\<lambda>p. p\<lparr>saved_rsp := r, saved_user_rsp := u\<rparr>) s
      in if state (process_at s2 ?c) \<noteq> PROCESS_STATE_DEAD
         then set_process ?c (\<lambda>p. p\<lparr>state := PROCESS_STATE_READY\<rparr>) s2 else s2) = save_current r u s"
    if "state (process_at s ?c) = PROCESS_STATE_RUNNING \<or> state (process_at s ?c) = PROCESS_STATE_READY"
    using that c by (auto simp: save_current_def set_process_twice comp_def pstate_defs)
  have s1: "g_current_pid s1 = ?c" "length (g_processes s1) = 16" using c by (simp_all add: s1_def)
  have none: "\<not> running s1 i" if i: "0 \<le> i" "i < 16" for i
  proof (cases "i = ?c")
    case True
    then show ?thesis using c by (auto simp: s1_def save_current_def running_def pstate_defs)
  next
    case False
    then have "process_at s1 i = process_at s i" using c i by (auto simp: s1_def save_current_def)
    moreover have "\<not> running s i" using inv i False by (auto simp: proc_inv_def)
    ultimately show ?thesis by (simp add: running_def)
  qed
  have [simp]: "(save_current r u s)\<lparr>g_current_pid := ?c\<rparr> = save_current r u s"
    by (simp add: save_current_def set_process_def)
  have sched: "process_schedule_on_syscall r u sw out s =
      (if \<not> sw \<and> state (process_at s1 ?c) \<noteq> PROCESS_STATE_DEAD
       then Some (saved_rsp (process_at (resume ?c s1) ?c),
         map_option (\<lambda>_. saved_user_rsp (process_at (resume ?c s1) ?c)) out, resume ?c s1)
       else let n = pick_next_ready ?c s1 in if n < 0 then None
       else Some (saved_rsp (process_at (resume n s1) n),
         map_option (\<lambda>_. saved_user_rsp (process_at (resume n s1) n)) out, resume n s1))"
    using c s1(1) save
    by (cases "state (process_at s ?c) = PROCESS_STATE_RUNNING \<or> state (process_at s ?c) = PROCESS_STATE_READY")
      (simp_all add: process_schedule_on_syscall_def PROCESS_MAX_COUNT_def s1_def resume_def
        option.map_comp comp_def Let_def)
  have "proc_inv (resume n s1)" if "0 \<le> n" "n < 16" for n
    using resume_inv [OF s1(2) none that] by (simp add: proc_running_def)
  then show ?thesis
    using assms(2) c pick_next_ready_range [OF c(2), of s1] unfolding sched Let_def
    by (auto split: if_splits)
qed

lemma exit_keeps_inv:
  assumes "proc_inv s"
  shows "proc_inv (process_exit_current s)"
proof (cases "g_current_pid s < 0 \<or> g_current_pid s \<ge> 16")
  case True
  then show ?thesis using assms by (simp add: process_exit_current_def PROCESS_MAX_COUNT_def)
next
  case False
  have "process_at (process_exit_current s) i =
      (if i = g_current_pid s then (process_at s i)\<lparr>state := PROCESS_STATE_DEAD\<rparr> else process_at s i)"
    if "0 \<le> i" "i < 16" for i
    using False that assms by (simp add: process_exit_current_def PROCESS_MAX_COUNT_def proc_inv_def)
  then show ?thesis
    using assms False
    by (auto simp: proc_inv_def running_def pstate_defs process_exit_current_def PROCESS_MAX_COUNT_def
        split: if_splits)
qed

lemma create_keeps_inv:
  assumes inv: "proc_inv s" and "process_create_user ent s = Some (pid, s')"
  shows "proc_inv s'"
proof (cases "ent = 0 \<or> find_free_slot s < 0")
  case True
  then show ?thesis
    using assms by (auto simp: process_create_user_def Let_def serial_simps split: if_splits)
next
  case False
  then obtain stack t where k: "kmalloc PROCESS_STACK_SIZE s = Some (stack, t)"
    and s': "s' = (if stack = NULL then msg ''[OS] [PROC] Stack allocation failed'' t
       else set_process (find_free_slot s) (new_process ent stack)
         (t\<lparr>mem := new_frame ent (((stack + ucast PROCESS_STACK_SIZE) AND NOT 0xF) - 120) (mem t)\<rparr>))"
    using assms(2) create_user_unfold [of ent s] by (auto split: bind_splits if_splits)
  have same: "proc_inv t" "running t = running s"
    using proc_inv_cong(1,2) [OF kmalloc_keeps_table [OF k]] inv by simp_all
  show ?thesis
  proof (cases rule: find_free_slot_cases [of s, case_names none some])
    case none
    then show ?thesis using False by simp
  next
    case (some q)
    have "\<not> running t q" using some(4) same(2) by (auto simp: slot_defs pstate_defs)
    then show ?thesis
      using some(1-3) same(1) unfolding s'
      by (auto simp: serial_simps new_process_def Let_def pstate_defs running_def
          intro!: proc_inv_set_ready)
  qed
qed

text \<open>The steps of the process manager: creation, exit, and the schedule that ends a system call.\<close>

inductive proc_step :: "'a process_state_scheme \<Rightarrow> 'a process_state_scheme \<Rightarrow> bool" where
  step_create: "process_create_user ent s = Some (pid, s') \<Longrightarrow> proc_step s s'"
| step_exit: "proc_step s (process_exit_current s)"
| step_schedule: "process_schedule_on_syscall r u sw out s = Some (r', out', s') \<Longrightarrow> proc_step s s'"

text \<open>
  C16: From the registration of the first process on, whatever sequence of process
  creations, exits and schedules follows, at most one process is running and it is the
  current one.
\<close>

theorem one_running:
  fixes s0 :: "'a process_state_scheme"
  assumes "length (g_processes s0) = 16"
    and "proc_step\<^sup>*\<^sup>* (snd (process_register_boot_process ent ust (process_manager_init s0))) s"
  shows "- 1 \<le> g_current_pid s \<and> g_current_pid s < 16 \<and>
    (\<forall>i. 0 \<le> i \<and> i < 16 \<and> running s i \<longrightarrow> i = g_current_pid s)"
proof -
  have "proc_inv s"
    using assms(2)
  proof (induction rule: rtranclp_induct)
    case base
    then show ?case using boot_process_running(2) [OF assms(1)] by (simp add: proc_running_def)
  next
    case (step s t)
    from step(2,3) show ?case
      by (cases rule: proc_step.cases) (auto intro: create_keeps_inv exit_keeps_inv schedule_keeps_inv)
  qed
  then show ?thesis by (simp add: proc_inv_def)
qed

theorem one_running_witness:
  "g_current_pid (process_exit_current first_process) = 0 \<and> \<not> running (process_exit_current first_process) 3"
proof -
  have len: "length (g_processes (memory_init 0x200000 static_process_state)) = 16"
    by (simp add: static_process_state_def)
  have "proc_step\<^sup>*\<^sup>* (snd (process_register_boot_process 0x400000 0x500000
      (process_manager_init (memory_init 0x200000 static_process_state)))) (process_exit_current first_process)"
    unfolding first_process_def by (rule r_into_rtranclp) (rule step_exit)
  note r = one_running [OF len this]
  have c: "g_current_pid (process_exit_current first_process) = 0"
    using exit_effect(3) [OF first_process_running(1)] first_process_running(2) by simp
  have "running (process_exit_current first_process) 3 \<longrightarrow> (3 :: int) = 0"
    using spec [OF conjunct2 [OF conjunct2 [OF r]], of 3] unfolding c by simp
  with c show ?thesis by simp
qed

text \<open>
  C17: When a process exits, the schedule that ends its system call never returns to it: it
  resumes the nearest ready process and leaves the exited one dead, and when no process is
  ready it halts.
\<close>

theorem exit_schedules_other:
  fixes s :: "'a process_state_scheme"
  assumes run: "proc_running s"
  defines "t \<equiv> process_exit_current s"
  shows "if \<exists>p. 0 \<le> p \<and> p < 16 \<and> ready s p
    then \<exists>n s'. process_schedule_on_syscall r u sw (Some v) t =
        Some (saved_rsp (process_at s n), Some (saved_user_rsp (process_at s n)), s') \<and>
      n \<noteq> g_current_pid s \<and> ready s n \<and> g_current_pid s' = n \<and> proc_running s' \<and>
      dead s' (g_current_pid s)
    else process_schedule_on_syscall r u sw (Some v) t = None"
proof -
  note e = exit_effect [OF run, folded t_def] and d = proc_runningD [OF run]
  let ?c = "g_current_pid s"
  have len: "length (g_processes t) = 16" using e(1) by (simp add: proc_inv_def)
  have cur: "0 \<le> g_current_pid t" "dead t (g_current_pid t)" using d(2) e(2,3) by simp_all
  have cr: "\<not> ready t ?c" using e(2) by (simp add: slot_defs pstate_defs)
  have rdy: "ready t i \<longleftrightarrow> ready s i" if "0 \<le> i" "i < 16" for i
    using that e(4) [of i] cr d(4) by (cases "i = ?c") (auto simp: slot_defs pstate_defs)
  have norun: "\<not> running t i" if "0 \<le> i" "i < 16" for i
    using e(1,2,3) that by (auto simp: proc_inv_def slot_defs pstate_defs)
  show ?thesis
  proof (cases "\<exists>p. 0 \<le> p \<and> p < 16 \<and> ready s p")
    case True
    then obtain p where p: "0 \<le> p" "p < 16" "ready t p" using rdy by blast
    obtain k where k: "pick_next_ready ?c t = (?c + k) mod 16" "ready t ((?c + k) mod 16)"
      using pick_next_ready_cases [OF d(2,3) p] by metis
    let ?n = "(?c + k) mod 16"
    have n: "0 \<le> ?n" "?n < 16" by simp_all
    have nc: "?n \<noteq> ?c" using k(2) cr by auto
    have "dead (resume ?n t) ?c"
      using resume_at [OF len n d(2,3)] nc e(2) by (simp add: dead_def)
    moreover have "process_at (resume ?n t) ?n = (process_at s ?n)\<lparr>state := PROCESS_STATE_RUNNING\<rparr>"
      using resume_at [OF len n n] e(4) [OF n nc] by simp
    ultimately show ?thesis
      using True schedule_dead [OF e(1) cur, of r u sw "Some v"] k e(3) n nc rdy [OF n]
        resume_inv [OF len norun n]
      by (auto intro!: exI [of _ ?n])
  next
    case False
    then have "pick_next_ready ?c t = - 1"
      using pick_next_ready_none [OF d(2,3), of t] rdy norun [OF d(2,3)] by (simp add: running_def)
    then show ?thesis
      using False schedule_dead [OF e(1) cur, of r u sw "Some v"] e(3) by simp
  qed
qed

theorem exit_schedules_other_witness:
  "process_schedule_on_syscall 1 2 True (Some 0) (process_exit_current first_process) = None"
  using exit_schedules_other [OF first_process_running(1), of 1 2 True 0] first_process_not_ready by auto

end
