(* ===== verification/Disk_IO.thy ===== *)
theory Disk_IO
  imports Process_Properties
begin

text \<open>
  Port input and output and the ATA disk driver of \<open>Kernel/IO/IO_Main.c\<close>. The devices
  behind the ports are not part of the program: they are the argument \<open>env\<close>, which says for
  every history of port accesses what the newest access reads. The driver's polling loops
  are total whatever the devices answer, because each has its time-out counter.
\<close>

subsection \<open>Ports\<close>

datatype io_event = In8 u16 | In16 u16 | In32 u16 | Out8 u16 u8 | Out16 u16 u16 | Out32 u16 u32

type_synonym io_env = "io_event list \<Rightarrow> u32"

record io_state = process_state +
  io_log :: "io_event list"

definition outb :: "u16 \<Rightarrow> u8 \<Rightarrow> 'a io_state_scheme \<Rightarrow> 'a io_state_scheme" where
  "outb port val s = s\<lparr>io_log := Out8 port val # io_log s\<rparr>"

definition inb :: "io_env \<Rightarrow> u16 \<Rightarrow> 'a io_state_scheme \<Rightarrow> u8 \<times> 'a io_state_scheme" where
  "inb env port s = (ucast (env (In8 port # io_log s)), s\<lparr>io_log := In8 port # io_log s\<rparr>)"

definition inw :: "io_env \<Rightarrow> u16 \<Rightarrow> 'a io_state_scheme \<Rightarrow> u16 \<times> 'a io_state_scheme" where
  "inw env port s = (ucast (env (In16 port # io_log s)), s\<lparr>io_log := In16 port # io_log s\<rparr>)"

definition outl :: "u16 \<Rightarrow> u32 \<Rightarrow> 'a io_state_scheme \<Rightarrow> 'a io_state_scheme" where
  "outl port val s = s\<lparr>io_log := Out32 port val # io_log s\<rparr>"

definition inl :: "io_env \<Rightarrow> u16 \<Rightarrow> 'a io_state_scheme \<Rightarrow> u32 \<times> 'a io_state_scheme" where
  "inl env port s = (env (In32 port # io_log s), s\<lparr>io_log := In32 port # io_log s\<rparr>)"

primrec outsw :: "u16 \<Rightarrow> ptr \<Rightarrow> nat \<Rightarrow> 'a io_state_scheme \<Rightarrow> 'a io_state_scheme" where
  "outsw port addr 0 s = s"
| "outsw port addr (Suc count) s =
     outsw port (addr + 2) count (s\<lparr>io_log := Out16 port (load16 (mem s) addr) # io_log s\<rparr>)"

subsection \<open>The ATA driver\<close>

definition ATA_DATA :: u16 where "ATA_DATA = 0x1F0"
definition ATA_SECCOUNT :: u16 where "ATA_SECCOUNT = 0x1F2"
definition ATA_LBA0 :: u16 where "ATA_LBA0 = 0x1F3"
definition ATA_LBA1 :: u16 where "ATA_LBA1 = 0x1F4"
definition ATA_LBA2 :: u16 where "ATA_LBA2 = 0x1F5"
definition ATA_HDDEVSEL :: u16 where "ATA_HDDEVSEL = 0x1F6"
definition ATA_COMMAND :: u16 where "ATA_COMMAND = 0x1F7"
definition ATA_STATUS :: u16 where "ATA_STATUS = 0x1F7"
definition FAT32_START_LBA :: u32 where "FAT32_START_LBA = 2048"
definition ATA_CMD_READ :: u8 where "ATA_CMD_READ = 0x20"
definition ATA_SR_BSY :: u8 where "ATA_SR_BSY = 0x80"
definition ATA_SR_DRQ :: u8 where "ATA_SR_DRQ = 0x08"
definition ATA_SR_ERR :: u8 where "ATA_SR_ERR = 0x01"

definition ata_command :: "u8 \<Rightarrow> u32 \<Rightarrow> 'a io_state_scheme \<Rightarrow> 'a io_state_scheme" where
  "ata_command cmd real_lba s =
     (let s = outb ATA_HDDEVSEL (0xE0 OR ucast (drop_bit 24 real_lba AND 0x0F)) s;
          s = outb ATA_SECCOUNT 1 s;
          s = outb ATA_LBA0 (ucast (real_lba AND 0xFF)) s;
          s = outb ATA_LBA1 (ucast (drop_bit 8 real_lba AND 0xFF)) s;
          s = outb ATA_LBA2 (ucast (drop_bit 16 real_lba AND 0xFF)) s
      in outb ATA_COMMAND cmd s)"

lemma timeout_measure: "timeout \<noteq> 1 \<Longrightarrow> unat (timeout - 2) < unat (timeout - 1)" for timeout :: u32
  using dec_measure(2) [of "timeout - 1"] by (simp add: algebra_simps)

function wait_not_busy :: "io_env \<Rightarrow> u32 \<Rightarrow> 'a io_state_scheme \<Rightarrow> bool \<times> 'a io_state_scheme" where
  "wait_not_busy env timeout s =
     (let (status, s) = inb env ATA_STATUS s
      in if status AND ATA_SR_BSY \<noteq> 0
         then let timeout = timeout - 1
              in if timeout = 0 then (False, s) else wait_not_busy env timeout s
         else (True, s))"
  by pat_completeness auto
termination
  by (relation "measure (\<lambda>(env, timeout, s). unat (timeout - 1))")
    (auto intro: timeout_measure)

function wait_data_request :: "io_env \<Rightarrow> u32 \<Rightarrow> 'a io_state_scheme \<Rightarrow> bool \<times> 'a io_state_scheme" where
  "wait_data_request env timeout s =
     (let (status, s) = inb env ATA_STATUS s
      in if status AND ATA_SR_ERR \<noteq> 0 then (False, msg ''[OS] [IO] Disk error detected'' s)
         else let timeout = timeout - 1
              in if timeout = 0 then (False, msg ''[OS] [IO] Timeout waiting for DRQ'' s)
                 else if status AND ATA_SR_DRQ = 0 then wait_data_request env timeout s
                 else (True, s))"
  by pat_completeness auto
termination
  by (relation "measure (\<lambda>(env, timeout, s). unat (timeout - 1))") (auto intro: timeout_measure)

function wait_write_request :: "io_env \<Rightarrow> u32 \<Rightarrow> 'a io_state_scheme \<Rightarrow> bool \<times> 'a io_state_scheme" where
  "wait_write_request env timeout s =
     (let (status, s) = inb env ATA_STATUS s
      in if status AND ATA_SR_DRQ = 0
         then let timeout = timeout - 1
              in if timeout = 0 then (False, s) else wait_write_request env timeout s
         else (True, s))"
  by pat_completeness auto
termination
  by (relation "measure (\<lambda>(env, timeout, s). unat (timeout - 1))") (auto intro: timeout_measure)

declare wait_not_busy.simps [simp del] wait_data_request.simps [simp del]
  wait_write_request.simps [simp del]

text \<open>The 256 words of a sector, read into the buffer one after the other.\<close>

function read_words :: "io_env \<Rightarrow> ptr \<Rightarrow> nat \<Rightarrow> 'a io_state_scheme \<Rightarrow> 'a io_state_scheme" where
  "read_words env buffer i s =
     (if i < 256
      then let (w, s) = inw env ATA_DATA s
           in read_words env buffer (i + 1) (s\<lparr>mem := store16 (buffer + 2 * of_nat i) w (mem s)\<rparr>)
      else s)"
  by pat_completeness auto
termination
  by (relation "measure (\<lambda>(env, buffer, i, s). 256 - i)") auto

declare read_words.simps [simp del]

function disk_read_loop ::
  "io_env \<Rightarrow> u32 \<Rightarrow> ptr \<Rightarrow> u32 \<Rightarrow> u32 \<Rightarrow> 'a io_state_scheme \<Rightarrow> bool \<times> 'a io_state_scheme" where
  "disk_read_loop env lba buffer sectors k s =
     (if k < sectors
      then let real_lba = FAT32_START_LBA + lba + k;
               s = ata_command ATA_CMD_READ real_lba s;
               (ok, s) = wait_not_busy env 10000000 s
           in if \<not> ok then (False, msg ''[OS] [IO] Timeout waiting for BSY clear'' s)
              else let (ok, s) = wait_data_request env 10000000 s
                   in if \<not> ok then (False, s)
                      else disk_read_loop env lba (buffer + 512) sectors (k + 1) (read_words env buffer 0 s)
      else (True, s))"
  by pat_completeness auto
termination
  by (relation "measure (\<lambda>(env, lba, buffer, sectors, k, s). unat sectors - unat k)")
    (auto intro: inc_measure)

declare disk_read_loop.simps [simp del]

definition disk_read ::
  "io_env \<Rightarrow> u32 \<Rightarrow> ptr \<Rightarrow> u32 \<Rightarrow> 'a io_state_scheme \<Rightarrow> bool \<times> 'a io_state_scheme" where
  "disk_read env lba buffer sectors s =
     (if sectors = 0 then (False, s) else disk_read_loop env lba buffer sectors 0 s)"

function disk_write_loop ::
  "io_env \<Rightarrow> u32 \<Rightarrow> ptr \<Rightarrow> u32 \<Rightarrow> u32 \<Rightarrow> 'a io_state_scheme \<Rightarrow> bool \<times> 'a io_state_scheme" where
  "disk_write_loop env lba buffer sectors k s =
     (if k < sectors
      then let real_lba = FAT32_START_LBA + lba + k;
               s = ata_command 0x30 real_lba s;
               (ok, s) = wait_not_busy env 10000000 s
           in if \<not> ok then (False, s)
              else let (ok, s) = wait_write_request env 10000000 s
                   in if \<not> ok then (False, s)
                      else disk_write_loop env lba (buffer + 512) sectors (k + 1) (outsw ATA_DATA buffer 256 s)
      else (True, s))"
  by pat_completeness auto
termination
  by (relation "measure (\<lambda>(env, lba, buffer, sectors, k, s). unat sectors - unat k)")
    (auto intro: inc_measure)

declare disk_write_loop.simps [simp del]

definition disk_write ::
  "io_env \<Rightarrow> u32 \<Rightarrow> ptr \<Rightarrow> u32 \<Rightarrow> 'a io_state_scheme \<Rightarrow> bool \<times> 'a io_state_scheme" where
  "disk_write env lba buffer sectors s =
     (if sectors = 0 then (False, s) else disk_write_loop env lba buffer sectors 0 s)"


subsection \<open>What the driver leaves alone\<close>

text \<open>
  The driver changes memory, the console and the port history only: two states are in the
  same frame when they agree in everything else.
\<close>

definition erase_io :: "'a io_state_scheme \<Rightarrow> 'a io_state_scheme" where
  "erase_io s = s\<lparr>mem := (\<lambda>_. 0), io_log := [], serial_out := []\<rparr>"

definition io_frame :: "'a io_state_scheme \<Rightarrow> 'a io_state_scheme \<Rightarrow> bool" where
  "io_frame s s' \<longleftrightarrow> erase_io s = erase_io s'"

lemma erase_io_upd [simp]:
  "erase_io (s\<lparr>mem := m\<rparr>) = erase_io s" "erase_io (s\<lparr>io_log := l\<rparr>) = erase_io s"
  "erase_io (s\<lparr>serial_out := out\<rparr>) = erase_io s"
  by (simp_all add: erase_io_def)

lemma io_frame_iff:
  "io_frame s s' \<longleftrightarrow> s' = s\<lparr>mem := mem s', io_log := io_log s', serial_out := serial_out s'\<rparr>"
proof
  have restore: "(erase_io s)\<lparr>mem := m, io_log := l, serial_out := out\<rparr> = s\<lparr>mem := m, io_log := l, serial_out := out\<rparr>"
    for s :: "'a io_state_scheme" and m l out by (simp add: erase_io_def)
  assume "io_frame s s'"
  then have "erase_io s = erase_io s'" by (simp add: io_frame_def)
  then have "(erase_io s')\<lparr>mem := mem s', io_log := io_log s', serial_out := serial_out s'\<rparr> =
      s\<lparr>mem := mem s', io_log := io_log s', serial_out := serial_out s'\<rparr>"
    using restore [where s = s and m = "mem s'" and l = "io_log s'" and out = "serial_out s'"] by simp
  then show "s' = s\<lparr>mem := mem s', io_log := io_log s', serial_out := serial_out s'\<rparr>"
    unfolding restore by simp
next
  assume "s' = s\<lparr>mem := mem s', io_log := io_log s', serial_out := serial_out s'\<rparr>"
  then have "erase_io s' = erase_io (s\<lparr>mem := mem s', io_log := io_log s', serial_out := serial_out s'\<rparr>)"
    by (rule arg_cong)
  then show "io_frame s s'" by (simp add: io_frame_def)
qed

lemma erase_wait [simp]:
  "erase_io (snd (wait_not_busy env t s)) = erase_io s"
  "erase_io (snd (wait_data_request env t s)) = erase_io s"
  "erase_io (snd (wait_write_request env t s)) = erase_io s"
proof -
  show "erase_io (snd (wait_not_busy env t s)) = erase_io s"
  proof (induction env t s rule: wait_not_busy.induct)
    case (1 env t s)
    then show ?case by (subst wait_not_busy.simps) (auto simp: inb_def Let_def)
  qed
  show "erase_io (snd (wait_data_request env t s)) = erase_io s"
  proof (induction env t s rule: wait_data_request.induct)
    case (1 env t s)
    then show ?case by (subst wait_data_request.simps) (auto simp: inb_def Let_def serial_simps)
  qed
  show "erase_io (snd (wait_write_request env t s)) = erase_io s"
  proof (induction env t s rule: wait_write_request.induct)
    case (1 env t s)
    then show ?case by (subst wait_write_request.simps) (auto simp: inb_def Let_def)
  qed
qed

lemma erase_transfer [simp]:
  "erase_io (ata_command c a s) = erase_io s" "erase_io (read_words env buf i s) = erase_io s"
  "erase_io (outsw port buf n s) = erase_io s"
proof -
  show "erase_io (ata_command c a s) = erase_io s"
    by (simp add: ata_command_def outb_def Let_def)
  show "erase_io (read_words env buf i s) = erase_io s"
  proof (induction env buf i s rule: read_words.induct)
    case (1 env buf i s)
    then show ?case by (subst read_words.simps) (auto simp: inw_def)
  qed
  show "erase_io (outsw port buf n s) = erase_io s"
    by (induction n arbitrary: buf s) simp_all
qed

lemma erase_disk [simp]:
  "erase_io (snd (disk_read env lba buf n s)) = erase_io s"
  "erase_io (snd (disk_write env lba buf n s)) = erase_io s"
proof -
  have "erase_io (snd (disk_read_loop env lba buf n k s)) = erase_io s" for k
  proof (induction env lba buf n k s rule: disk_read_loop.induct)
    case (1 env lba buf n k s)
    let ?s0 = "ata_command ATA_CMD_READ (FAT32_START_LBA + lba + k) s"
    obtain ok1 t1 where w1: "wait_not_busy env 10000000 ?s0 = (ok1, t1)" by fastforce
    obtain ok2 t2 where w2: "wait_data_request env 10000000 t1 = (ok2, t2)" by fastforce
    have e: "erase_io t1 = erase_io s" "erase_io t2 = erase_io s"
      using erase_wait(1) [of env 10000000 ?s0] erase_wait(2) [of env 10000000 t1] w1 w2 by simp_all
    show ?case
      using 1 [OF _ refl refl w1 [symmetric] refl _ w2 [symmetric] refl]
      by (subst disk_read_loop.simps) (simp add: Let_def serial_simps w1 w2 e)
  qed
  then show "erase_io (snd (disk_read env lba buf n s)) = erase_io s" by (simp add: disk_read_def)
  have "erase_io (snd (disk_write_loop env lba buf n k s)) = erase_io s" for k
  proof (induction env lba buf n k s rule: disk_write_loop.induct)
    case (1 env lba buf n k s)
    let ?s0 = "ata_command 0x30 (FAT32_START_LBA + lba + k) s"
    obtain ok1 t1 where w1: "wait_not_busy env 10000000 ?s0 = (ok1, t1)" by fastforce
    obtain ok2 t2 where w2: "wait_write_request env 10000000 t1 = (ok2, t2)" by fastforce
    have e: "erase_io t1 = erase_io s" "erase_io t2 = erase_io s"
      using erase_wait(1) [of env 10000000 ?s0] erase_wait(3) [of env 10000000 t1] w1 w2 by simp_all
    show ?case
      using 1 [OF _ refl refl w1 [symmetric] refl _ w2 [symmetric] refl]
      by (subst disk_write_loop.simps) (simp add: Let_def w1 w2 e)
  qed
  then show "erase_io (snd (disk_write env lba buf n s)) = erase_io s" by (simp add: disk_write_def)
qed

lemma disk_frame:
  "disk_read env lba buf n s = (ok, s') \<Longrightarrow> io_frame s s'"
  "disk_write env lba buf n s = (ok, s') \<Longrightarrow> io_frame s s'"
  using erase_disk(1) [of env lba buf n s] erase_disk(2) [of env lba buf n s] by (simp_all add: io_frame_def)

end
