(* ===== verification/Disk_Device.thy ===== *)
theory Disk_Device
  imports Disk_IO
begin

text \<open>
  What the ATA driver relies on and what it gives to the file system. The hypothesis on the
  drive is the documented protocol of the PIO read and write commands, stated over the
  history of port accesses: the sector addressed by the last command, the words
  transferred since, and the contents of the disk after all completed writes. On such a
  drive \<open>disk_read\<close> and \<open>disk_write\<close> implement the block device of the locale
  \<open>block_device\<close>.
\<close>

subsection \<open>The drive's protocol\<close>

text \<open>A disk maps sector numbers to their 512 bytes.\<close>

type_synonym disk = "u32 \<Rightarrow> u8 list"

text \<open>Histories have the newest access first.\<close>

fun ata_reg :: "u16 \<Rightarrow> io_event list \<Rightarrow> u8" where
  "ata_reg p [] = 0"
| "ata_reg p (e # l) = (case e of Out8 q v \<Rightarrow> if q = p then v else ata_reg p l | _ \<Rightarrow> ata_reg p l)"

definition ata_lba :: "io_event list \<Rightarrow> u32" where
  "ata_lba l = ucast (ata_reg ATA_LBA0 l) OR push_bit 8 (ucast (ata_reg ATA_LBA1 l)) OR
     push_bit 16 (ucast (ata_reg ATA_LBA2 l)) OR push_bit 24 (ucast (ata_reg ATA_HDDEVSEL l AND 0x0F))"

text \<open>The last command, if it addresses one sector of the first drive by its number.\<close>

fun ata_cmd :: "io_event list \<Rightarrow> (u8 \<times> u32) option" where
  "ata_cmd [] = None"
| "ata_cmd (e # l) = (case e of
     Out8 q v \<Rightarrow> if q = ATA_COMMAND
       then if ata_reg ATA_SECCOUNT l = 1 \<and> ata_reg ATA_HDDEVSEL l AND 0xF0 = 0xE0
            then Some (v, ata_lba l) else None
       else ata_cmd l
   | _ \<Rightarrow> ata_cmd l)"

text \<open>Since the last command: status reads, words read, and words written in their order.\<close>

fun ata_polls :: "io_event list \<Rightarrow> nat" where
  "ata_polls [] = 0"
| "ata_polls (e # l) = (case e of
     Out8 q v \<Rightarrow> if q = ATA_COMMAND then 0 else ata_polls l
   | In8 q \<Rightarrow> if q = ATA_STATUS then Suc (ata_polls l) else ata_polls l
   | _ \<Rightarrow> ata_polls l)"

fun ata_words :: "io_event list \<Rightarrow> nat" where
  "ata_words [] = 0"
| "ata_words (e # l) = (case e of
     Out8 q v \<Rightarrow> if q = ATA_COMMAND then 0 else ata_words l
   | In16 q \<Rightarrow> if q = ATA_DATA then Suc (ata_words l) else ata_words l
   | _ \<Rightarrow> ata_words l)"

fun ata_out :: "io_event list \<Rightarrow> u16 list" where
  "ata_out [] = []"
| "ata_out (e # l) = (case e of
     Out8 q v \<Rightarrow> if q = ATA_COMMAND then [] else ata_out l
   | Out16 q w \<Rightarrow> if q = ATA_DATA then ata_out l @ [w] else ata_out l
   | _ \<Rightarrow> ata_out l)"

text \<open>A write command takes effect with its last word.\<close>

fun ata_disk :: "disk \<Rightarrow> io_event list \<Rightarrow> disk" where
  "ata_disk d [] = d"
| "ata_disk d (e # l) = (case e of
     Out16 q w \<Rightarrow>
       (case ata_cmd l of
          Some (c, a) \<Rightarrow> if q = ATA_DATA \<and> c = 0x30 \<and> length (ata_out l) = 255
            then (ata_disk d l)(a := concat (map (le_encode 2) (ata_out l @ [w])))
            else ata_disk d l
        | None \<Rightarrow> ata_disk d l)
   | _ \<Rightarrow> ata_disk d l)"

definition ata_status :: "io_env \<Rightarrow> io_event list \<Rightarrow> u8" where
  "ata_status env l = ucast (env (In8 ATA_STATUS # l))"

text \<open>
  A drive of \<open>cap\<close> sectors with initial contents \<open>d\<close> that serves every command within \<open>lat\<close>
  status reads: BSY clears by then and stays clear, DRQ is set and ERR clear when BSY is,
  and a read command delivers the words of the addressed sector.
\<close>

definition ata_drive :: "io_env \<Rightarrow> nat \<Rightarrow> nat \<Rightarrow> disk \<Rightarrow> bool" where
  "ata_drive env lat cap d \<longleftrightarrow>
     (\<forall>l c a. ata_cmd l = Some (c, a) \<and> unat a < cap \<and> (c = 0x20 \<or> c = 0x30) \<and>
        ata_words l = 0 \<and> ata_out l = [] \<longrightarrow>
        (lat \<le> ata_polls l \<longrightarrow> ata_status env l AND ATA_SR_BSY = 0) \<and>
        (ata_status env l AND ATA_SR_BSY = 0 \<longrightarrow>
           ata_status env l AND ATA_SR_DRQ \<noteq> 0 \<and> ata_status env l AND ATA_SR_ERR = 0 \<and>
           ata_status env (In8 ATA_STATUS # l) AND ATA_SR_BSY = 0)) \<and>
     (\<forall>l a. ata_cmd l = Some (0x20, a) \<and> unat a < cap \<and> ata_words l < 256 \<longrightarrow>
        ucast (env (In16 ATA_DATA # l)) =
          (le_decode [ata_disk d l a ! (2 * ata_words l), ata_disk d l a ! (2 * ata_words l + 1)] :: u16))"

text \<open>The partition starts at sector 2048; \<open>disk_ok\<close> describes its sectors as the driver numbers them.\<close>

definition disk_ok :: "io_env \<Rightarrow> nat \<Rightarrow> 'a io_state_scheme \<Rightarrow> disk \<Rightarrow> bool" where
  "disk_ok env cap s p \<longleftrightarrow> (\<exists>lat d. ata_drive env lat (2048 + cap) d \<and> lat < 10000000 \<and> 2048 + cap \<le> 268435456 \<and>
     (\<forall>a. length (d a) = 512) \<and>
     (\<forall>a. unat a < cap \<longrightarrow> p a = ata_disk d (io_log s) (FAT32_START_LBA + a)))"

lemmas port_defs = ATA_DATA_def ATA_SECCOUNT_def ATA_LBA0_def ATA_LBA1_def ATA_LBA2_def
  ATA_HDDEVSEL_def ATA_COMMAND_def ATA_STATUS_def

lemmas ata_log_simps = ata_reg.simps ata_cmd.simps ata_polls.simps ata_words.simps ata_out.simps ata_disk.simps

declare ata_log_simps [simp del]

text \<open>The six register writes leave the drive with the command for the sector, and nothing transferred.\<close>

lemma lba_bytes:
  fixes a :: u32
  assumes "unat a < 268435456"
  shows "(ucast (ucast (a AND 0xFF) :: u8) OR push_bit 8 (ucast (ucast (drop_bit 8 a AND 0xFF) :: u8)) OR
     push_bit 16 (ucast (ucast (drop_bit 16 a AND 0xFF) :: u8)) OR
     push_bit 24 (ucast ((0xE0 OR ucast (drop_bit 24 a AND 0x0F) :: u8) AND 0x0F)) :: u32) = a"
proof -
  have "\<not> bit a n" if "28 \<le> n" for n
  proof -
    have "unat a < 2 ^ 28" using assms by simp
    then have "take_bit 28 a = a"
      by (metis unsigned_take_bit_eq take_bit_nat_eq_self unsigned_word_eqI)
    then show ?thesis using that by (metis bit_take_bit_iff linorder_not_less)
  qed
  note high = this
  have masks: "(0xFF :: u32) = mask 8" "(0x0F :: u32) = mask 4" "(0x0F :: u8) = mask 4"
      "(0xE0 :: u8) = push_bit 5 (mask 3)"
    by (simp_all add: mask_eq_exp_minus_1 push_bit_eq_mult)
  show ?thesis
    unfolding masks
  proof (rule bit_word_eqI)
    fix n assume "n < LENGTH(32)"
    then consider "n < 8" | "8 \<le> n" "n < 16" | "16 \<le> n" "n < 24" | "24 \<le> n" "n < 28" | "28 \<le> n"
      by linarith
    then show "bit (ucast (ucast (a AND mask 8) :: u8) OR push_bit 8 (ucast (ucast (drop_bit 8 a AND mask 8) :: u8)) OR
        push_bit 16 (ucast (ucast (drop_bit 16 a AND mask 8) :: u8)) OR
        push_bit 24 (ucast ((push_bit 5 (mask 3) OR ucast (drop_bit 24 a AND mask 4) :: u8) AND mask 4)) :: u32) n
      \<longleftrightarrow> bit a n"
      by cases (auto simp: bit_simps high)
  qed
qed


definition ata_pending :: "u8 \<Rightarrow> u32 \<Rightarrow> io_event list \<Rightarrow> bool" where
  "ata_pending c a l \<longleftrightarrow> ata_cmd l = Some (c, a) \<and> ata_words l = 0 \<and> ata_out l = []"

lemma ata_command_log:
  assumes "unat a < 268435456"
  shows "\<exists>l. ata_command c a s = s\<lparr>io_log := l\<rparr> \<and> ata_pending c a l \<and> ata_polls l = 0 \<and>
    ata_disk d l = ata_disk d (io_log s)"
proof -
  have sel: "(0xE0 OR ucast (drop_bit 24 a AND 0x0F) :: u8) AND 0xF0 = 0xE0"
  proof -
    have masks: "(0xF0 :: u8) = push_bit 4 (mask 4)" "(0x0F :: u32) = mask 4"
        "(0xE0 :: u8) = push_bit 5 (mask 3)"
      by (simp_all add: mask_eq_exp_minus_1 push_bit_eq_mult)
    show ?thesis unfolding masks by (rule bit_word_eqI) (auto simp: bit_simps)
  qed
  show ?thesis
    by (rule exI [of _ "io_log (ata_command c a s)"])
      (simp add: ata_command_def outb_def Let_def ata_pending_def ata_log_simps port_defs sel ata_lba_def
        lba_bytes [OF assms])
qed

lemma ata_pending_poll: "ata_pending c a l \<Longrightarrow> ata_pending c a (In8 ATA_STATUS # l)"
  by (simp add: ata_pending_def ata_log_simps)

lemma ata_drive_status:
  assumes "ata_drive env lat cap d" "ata_pending c a l" "unat a < cap" "c = 0x20 \<or> c = 0x30"
  shows "lat \<le> ata_polls l \<Longrightarrow> ata_status env l AND ATA_SR_BSY = 0"
    and "ata_status env l AND ATA_SR_BSY = 0 \<Longrightarrow> ata_status env l AND ATA_SR_DRQ \<noteq> 0 \<and>
      ata_status env l AND ATA_SR_ERR = 0 \<and> ata_status env (In8 ATA_STATUS # l) AND ATA_SR_BSY = 0"
  using assms unfolding ata_drive_def ata_pending_def by blast+

lemma inb_status: "inb env ATA_STATUS s =
    (ata_status env (io_log s), s\<lparr>io_log := In8 ATA_STATUS # io_log s\<rparr>)"
  by (simp add: inb_def ata_status_def)

text \<open>The first loop ends in time on such a drive.\<close>

lemma wait_not_busy_ok:
  fixes s :: "'a io_state_scheme"
  assumes "ata_drive env lat cap d" "unat a < cap" "c = 0x20 \<or> c = 0x30"
    and "ata_pending c a (io_log s)" "lat < ata_polls (io_log s) + unat t"
  shows "\<exists>l. wait_not_busy env t s = (True, s\<lparr>io_log := l\<rparr>) \<and> ata_pending c a l \<and>
    ata_disk d' l = ata_disk d' (io_log s) \<and> ata_status env l AND ATA_SR_BSY = 0"
  using assms
proof (induction env t s rule: wait_not_busy.induct)
  case (1 env t s)
  let ?l = "io_log s"
  note st = ata_drive_status [OF 1(2,5,3,4)]
  show ?case
  proof (cases "ata_status env ?l AND ATA_SR_BSY = 0")
    case True
    then have "wait_not_busy env t s = (True, s\<lparr>io_log := In8 ATA_STATUS # ?l\<rparr>)"
      by (subst wait_not_busy.simps) (simp add: inb_status)
    then show ?thesis
      using st(2) [OF True] ata_pending_poll [OF 1(5)]
      by (intro exI [of _ "In8 ATA_STATUS # ?l"]) (simp add: ata_log_simps)
  next
    case False
    then have early: "ata_polls ?l < lat" using st(1) by (meson not_le)
    then have t: "t \<noteq> 0" "t - 1 \<noteq> 0" using 1(6) by (auto simp: unat_eq_0)
    let ?s = "s\<lparr>io_log := In8 ATA_STATUS # ?l\<rparr>"
    have step: "wait_not_busy env t s = wait_not_busy env (t - 1) ?s"
      using False t by (subst wait_not_busy.simps) (simp add: inb_status Let_def)
    have p: "ata_pending c a (io_log ?s)" using ata_pending_poll [OF 1(5)] by simp
    have b: "lat < ata_polls (io_log ?s) + unat (t - 1)"
      using 1(6) dec_measure [OF t(1)] by (simp add: ata_log_simps)
    from 1(1) [OF inb_status [symmetric] refl _ refl t(2) 1(2,3,4) p b] False step
    show ?thesis by (simp add: ata_log_simps)
  qed
qed

lemma wait_data_request_ok:
  assumes "ata_drive env lat cap d" "unat a < cap" "c = 0x20 \<or> c = 0x30"
    and "ata_pending c a (io_log s)" "ata_status env (io_log s) AND ATA_SR_BSY = 0"
  shows "wait_data_request env 10000000 s = (True, s\<lparr>io_log := In8 ATA_STATUS # io_log s\<rparr>)"
    and "wait_write_request env 10000000 s = (True, s\<lparr>io_log := In8 ATA_STATUS # io_log s\<rparr>)"
  using ata_drive_status(2) [OF assms(1,4,2,3,5)]
  by (subst wait_data_request.simps wait_write_request.simps, simp add: inb_status Let_def)+

lemma le_encode_decode_2: "le_encode 2 (le_decode [x, y] :: u16) = [x, y]"
proof -
  have "ucast (ucast x OR push_bit 8 (ucast y) :: u16) = x"
      "ucast (drop_bit 8 (ucast x OR push_bit 8 (ucast y) :: u16)) = y"
    by (rule bit_word_eqI, auto simp: bit_simps dest: bit_imp_le_length)+
  then show ?thesis by (simp add: numeral_2_eq_2)
qed

lemma ata_drive_word:
  assumes "ata_drive env lat cap d" "ata_cmd l = Some (0x20, a)" "unat a < cap" "ata_words l < 256"
  shows "ucast (env (In16 ATA_DATA # l)) =
    (le_decode [ata_disk d l a ! (2 * ata_words l), ata_disk d l a ! (2 * ata_words l + 1)] :: u16)"
  using conjunct2 [OF assms(1) [unfolded ata_drive_def], THEN spec [of _ l], THEN spec [of _ a]] assms(2-4) by blast

text \<open>The transfer of the words of a sector into the buffer.\<close>

lemma read_words_ok:
  fixes s :: "'a io_state_scheme"
  assumes "ata_drive env lat cap d" "unat a < cap"
    and "ata_cmd (io_log s) = Some (0x20, a)" "ata_words (io_log s) = i" "i \<le> 256"
    and "length (ata_disk d (io_log s) a) = 512"
  shows "\<exists>l. read_words env buffer i s = s\<lparr>io_log := l,
      mem := store_bytes (buffer + of_nat (2 * i)) (drop (2 * i) (ata_disk d (io_log s) a)) (mem s)\<rparr> \<and>
    ata_disk d l = ata_disk d (io_log s)"
  using assms
proof (induction env buffer i s rule: read_words.induct)
  case (1 env buffer i s)
  let ?l = "io_log s" and ?sec = "ata_disk d (io_log s) a"
  show ?case
  proof (cases "i < 256")
    case True
    let ?w = "le_decode [?sec ! (2 * i), ?sec ! (2 * i + 1)] :: u16"
    let ?s1 = "s\<lparr>io_log := In16 ATA_DATA # ?l\<rparr>"
    let ?s = "?s1\<lparr>mem := store16 (buffer + 2 * of_nat i) ?w (mem ?s1)\<rparr>"
    have "ucast (env (In16 ATA_DATA # ?l)) = ?w"
      using ata_drive_word [OF 1(2,4,3)] 1(5) True by simp
    then have w: "inw env ATA_DATA s = (?w, s\<lparr>io_log := In16 ATA_DATA # ?l\<rparr>)"
      by (simp add: inw_def)
    have step: "read_words env buffer i s = read_words env buffer (i + 1) ?s"
      using True by (subst read_words.simps) (simp add: w)
    have sec: "drop (2 * i) ?sec = [?sec ! (2 * i), ?sec ! (2 * i + 1)] @ drop (2 * (i + 1)) ?sec"
      using True 1(7) by (simp add: Cons_nth_drop_Suc [symmetric])
    have st: "store_bytes (buffer + of_nat (2 * i)) (drop (2 * i) ?sec) (mem s) =
        store_bytes (buffer + of_nat (2 * (i + 1))) (drop (2 * (i + 1)) ?sec) (mem ?s)"
      unfolding sec store_bytes_append by (simp add: store16_def le_encode_decode_2 algebra_simps del: le_decode.simps)
    have "\<exists>l. read_words env buffer (i + 1) ?s = ?s\<lparr>io_log := l,
        mem := store_bytes (buffer + of_nat (2 * (i + 1))) (drop (2 * (i + 1)) (ata_disk d (io_log ?s) a)) (mem ?s)\<rparr> \<and>
      ata_disk d l = ata_disk d (io_log ?s)"
      using 1(4,5,6,7) True
      by (intro 1(1) [OF True w [symmetric] refl 1(2,3)]) (simp_all add: ata_log_simps)
    then show ?thesis unfolding step st by (simp add: ata_log_simps)
  next
    case False
    then have "read_words env buffer i s = s" by (subst read_words.simps) simp
    moreover have "drop (2 * i) ?sec = []" using False 1(7) by simp
    ultimately show ?thesis by (intro exI [of _ ?l]) simp
  qed
qed


lemma ata_transfer_ready:
  fixes s :: "'a io_state_scheme"
  assumes "ata_drive env lat cap d" "lat < 10000000" "cap \<le> 268435456" "unat a < cap" "c = 0x20 \<or> c = 0x30"
  obtains l where "wait_not_busy env 10000000 (ata_command c a s) = (True, s\<lparr>io_log := l\<rparr>)"
    "wait_data_request env 10000000 (s\<lparr>io_log := l\<rparr>) = (True, s\<lparr>io_log := In8 ATA_STATUS # l\<rparr>)"
    "wait_write_request env 10000000 (s\<lparr>io_log := l\<rparr>) = (True, s\<lparr>io_log := In8 ATA_STATUS # l\<rparr>)"
    "ata_pending c a (In8 ATA_STATUS # l)" "ata_disk d (In8 ATA_STATUS # l) = ata_disk d (io_log s)"
proof -
  have "unat a < 268435456" using assms(3,4) by simp
  from ata_command_log [OF this, of c s d] obtain l0 where
    0: "ata_command c a s = s\<lparr>io_log := l0\<rparr>" "ata_pending c a l0" "ata_polls l0 = 0"
      "ata_disk d l0 = ata_disk d (io_log s)" by blast
  have "lat < ata_polls (io_log (s\<lparr>io_log := l0\<rparr>)) + unat (10000000 :: u32)"
    using assms(2) by simp
  from wait_not_busy_ok [OF assms(1,4,5) _ this, where d' = d] 0(2) obtain l where
    1: "wait_not_busy env 10000000 (s\<lparr>io_log := l0\<rparr>) = (True, s\<lparr>io_log := l\<rparr>)" "ata_pending c a l"
      "ata_disk d l = ata_disk d l0" "ata_status env l AND ATA_SR_BSY = 0" by auto
  have "ata_pending c a (io_log (s\<lparr>io_log := l\<rparr>))" "ata_status env (io_log (s\<lparr>io_log := l\<rparr>)) AND ATA_SR_BSY = 0"
    using 1 by simp_all
  from wait_data_request_ok [OF assms(1,4,5) this] 0 1 ata_pending_poll [OF 1(2)] show thesis
    by (intro that [of l]) (simp_all add: ata_log_simps)
qed

lemma real_lba:
  assumes "2048 + unat lba + unat n \<le> cap" "cap \<le> 268435456" "k < n"
  shows "unat (FAT32_START_LBA + lba + k) = 2048 + unat lba + unat k"
proof -
  have k: "unat k < unat n" using assms(3) by (simp add: word_less_nat_alt)
  have "unat lba + 2048 < 2 ^ LENGTH(32)" using assms by simp
  then have "unat (FAT32_START_LBA + lba) = 2048 + unat lba"
    by (simp add: FAT32_START_LBA_def unat_add_noof)
  then show ?thesis using assms(1,2) k by (simp add: unat_add_noof)
qed

lemma disk_read_loop_ok:
  fixes s :: "'a io_state_scheme"
  assumes "ata_drive env lat cap d" "lat < 10000000" "cap \<le> 268435456"
    and "\<forall>a. length (ata_disk d (io_log s) a) = 512"
    and "2048 + unat lba + unat n \<le> cap" "k \<le> n"
  shows "\<exists>l. disk_read_loop env lba buffer n k s = (True, s\<lparr>io_log := l,
      mem := store_bytes buffer
        (concat (map (\<lambda>j. ata_disk d (io_log s) (FAT32_START_LBA + lba + of_nat j)) [unat k..<unat n])) (mem s)\<rparr>) \<and>
    ata_disk d l = ata_disk d (io_log s)"
  using assms
proof (induction env lba buffer n k s rule: disk_read_loop.induct)
  case (1 env lba buffer n k s)
  note drive = 1(2,3,4)
  show ?case
  proof (cases "k < n")
    case True
    let ?a = "FAT32_START_LBA + lba + k" and ?D = "ata_disk d (io_log s)"
    have kn: "unat k < unat n" using True by (simp add: word_less_nat_alt)
    have acap: "unat ?a < cap" using real_lba [OF 1(6) drive(3) True] 1(6) kn by simp
    obtain l where l: "wait_not_busy env 10000000 (ata_command 0x20 ?a s) = (True, s\<lparr>io_log := l\<rparr>)"
      "wait_data_request env 10000000 (s\<lparr>io_log := l\<rparr>) = (True, s\<lparr>io_log := In8 ATA_STATUS # l\<rparr>)"
      "ata_pending 0x20 ?a (In8 ATA_STATUS # l)" "ata_disk d (In8 ATA_STATUS # l) = ?D"
      using ata_transfer_ready [OF drive acap, of "0x20"] by metis
    let ?s1 = "s\<lparr>io_log := In8 ATA_STATUS # l\<rparr>"
    have pre: "ata_cmd (io_log ?s1) = Some (0x20, ?a)" "ata_words (io_log ?s1) = 0"
      "length (ata_disk d (io_log ?s1) ?a) = 512"
      using l(3,4) 1(5) by (simp_all add: ata_pending_def)
    from read_words_ok [OF drive(1) acap pre(1,2) _ pre(3), of buffer] obtain l2 where
      2: "read_words env buffer 0 ?s1 = s\<lparr>io_log := l2, mem := store_bytes buffer (?D ?a) (mem s)\<rparr>"
        "ata_disk d l2 = ?D" by (auto simp: l(4))
    let ?s2 = "read_words env buffer 0 ?s1"
    have step: "disk_read_loop env lba buffer n k s = disk_read_loop env lba (buffer + 512) n (k + 1) ?s2"
      using True l(1,2) by (subst disk_read_loop.simps) (simp add: Let_def ATA_CMD_READ_def)
    have k1: "unat (k + 1) = Suc (unat k)" using True by (rule unat_inc_less)
    have "\<exists>l. disk_read_loop env lba (buffer + 512) n (k + 1) ?s2 = (True, ?s2\<lparr>io_log := l,
        mem := store_bytes (buffer + 512) (concat (map (\<lambda>j. ata_disk d (io_log ?s2)
          (FAT32_START_LBA + lba + of_nat j)) [unat (k + 1)..<unat n])) (mem ?s2)\<rparr>) \<and>
      ata_disk d l = ata_disk d (io_log ?s2)"
    proof (rule 1(1) [OF True refl refl l(1) [unfolded ATA_CMD_READ_def [symmetric], symmetric] refl _ l(2) [symmetric] refl _ drive])
      show "\<forall>a. length (ata_disk d (io_log ?s2) a) = 512" using 1(5) 2 by simp
      show "2048 + unat lba + unat n \<le> cap" by (rule 1(6))
      show "k + 1 \<le> n" using k1 kn by (simp add: word_le_nat_alt)
    qed simp_all
    moreover have "[unat k..<unat n] = unat k # [unat (k + 1)..<unat n]"
      using kn k1 by (simp add: upt_conv_Cons)
    ultimately show ?thesis
      using 1(5) unfolding step by (auto simp: 2 store_bytes_append)
  next
    case False
    then have "unat k = unat n" using 1(7) by simp
    then show ?thesis using False by (subst disk_read_loop.simps) (auto intro!: exI [of _ "io_log s"])
  qed
qed


text \<open>The words of a sector that \<open>outsw\<close> sends are the bytes of the buffer.\<close>

lemma concat_words: "concat (map (\<lambda>i. le_encode 2 (load16 m (addr + 2 * of_nat i))) [0..<n]) = load_bytes m addr (2 * n)"
proof (induction n)
  case (Suc n)
  have "le_encode 2 (load16 m a) = load_bytes m a 2" for a
    by (simp add: load16_def numeral_2_eq_2 le_encode_decode_2 [unfolded numeral_2_eq_2] del: le_decode.simps le_encode.simps)
  moreover have "2 * Suc n = 2 * n + 2" by simp
  ultimately show ?case using Suc by (simp only: load_bytes_append) (simp add: mult.commute)
qed simp

lemma outsw_log:
  "outsw port addr n s = s\<lparr>io_log :=
     rev (map (\<lambda>i. Out16 port (load16 (mem s) (addr + 2 * of_nat i))) [0..<n]) @ io_log s\<rparr>"
proof (induction n arbitrary: addr s)
  case (Suc n)
  have "map f [0..<Suc n] = f 0 # map (\<lambda>i. f (Suc i)) [0..<n]" for f :: "nat \<Rightarrow> io_event"
    unfolding upt_conv_Cons [OF zero_less_Suc] by (simp add: map_Suc_upt [symmetric] comp_def del: upt_Suc)
  then show ?case
    by (simp only: outsw.simps Suc rev.simps) (simp add: algebra_simps del: upt_Suc)
qed simp

lemma ata_out_words:
  assumes "ata_cmd l = Some (c, a)"
  shows "ata_cmd (rev (map (\<lambda>i. Out16 ATA_DATA (f i)) [0..<n]) @ l) = Some (c, a)"
    and "ata_out (rev (map (\<lambda>i. Out16 ATA_DATA (f i)) [0..<n]) @ l) = ata_out l @ map f [0..<n]"
  using assms by (induction n) (simp_all add: ata_log_simps)

lemma ata_disk_words:
  assumes "ata_cmd l = Some (0x30, a)" "ata_out l = []" "n \<le> 256"
  shows "ata_disk d (rev (map (\<lambda>i. Out16 ATA_DATA (f i)) [0..<n]) @ l) =
    (if n = 256 then (ata_disk d l)(a := concat (map (le_encode 2 \<circ> f) [0..<256])) else ata_disk d l)"
  using assms(3)
proof (induction n)
  case (Suc n)
  have "ata_disk d (rev (map (\<lambda>i. Out16 ATA_DATA (f i)) [0..<Suc n]) @ l) =
      (if n = 255 then (ata_disk d l)(a := concat (map (le_encode 2) (map f [0..<n] @ [f n]))) else ata_disk d l)"
  proof -
    define L where "L = rev (map (\<lambda>i. Out16 ATA_DATA (f i)) [0..<n]) @ l"
    have "ata_cmd L = Some (0x30, a)" "ata_out L = map f [0..<n]"
      using ata_out_words [OF assms(1), of f n] assms(2) by (simp_all add: L_def)
    moreover have "ata_disk d L = ata_disk d l" using Suc by (simp add: L_def)
    moreover have "rev (map (\<lambda>i. Out16 ATA_DATA (f i)) [0..<Suc n]) @ l = Out16 ATA_DATA (f n) # L"
      by (simp add: L_def)
    ultimately show ?thesis by (simp only: ata_disk.simps) simp
  qed
  also have "\<dots> = (if Suc n = 256 then (ata_disk d l)(a := concat (map (le_encode 2 \<circ> f) [0..<256])) else ata_disk d l)"
  proof (cases "n = 255")
    case True
    then have "[0..<256] = [0..<n] @ [n]" by (simp add: upt_Suc_append [of 0 255, symmetric])
    then show ?thesis using True by (simp add: comp_def)
  qed simp
  finally show ?case .
qed (simp add: ata_log_simps)


definition write_sectors :: "disk \<Rightarrow> u32 \<Rightarrow> u8 list \<Rightarrow> disk" where
  "write_sectors d a bs = (\<lambda>x. if unat (x - a) < length bs div 512
     then take 512 (drop (512 * unat (x - a)) bs) else d x)"

lemma write_sectors_Nil [simp]: "write_sectors d a [] = d"
  by (simp add: write_sectors_def fun_eq_iff)

lemma write_sectors_Cons:
  assumes "length xs = 512" "length ys = 512 * n" "n < 4294967295"
  shows "write_sectors (d(a := xs)) (a + 1) ys = write_sectors d a (xs @ ys)"
proof
  fix x
  show "write_sectors (d(a := xs)) (a + 1) ys x = write_sectors d a (xs @ ys) x"
  proof (cases "x = a")
    case True
    have "unat (a - (a + 1)) = 4294967295"
      by (simp add: unsigned_minus_1_eq_mask mask_eq_exp_minus_1)
    then show ?thesis using True assms by (simp add: write_sectors_def)
  next
    case False
    then have "x - a \<noteq> 0" by simp
    then have k: "unat (x - (a + 1)) = unat (x - a) - 1" "unat (x - a) \<noteq> 0"
      using dec_measure(1) [of "x - a"] by (simp_all add: algebra_simps unat_eq_0)
    then obtain j where "unat (x - a) = Suc j" by (metis not0_implies_Suc)
    then show ?thesis using k False assms by (simp add: write_sectors_def)
  qed
qed


lemma disk_write_loop_ok:
  fixes s :: "'a io_state_scheme"
  assumes "ata_drive env lat cap d" "lat < 10000000" "cap \<le> 268435456"
    and "2048 + unat lba + unat n \<le> cap" "k \<le> n"
  shows "\<exists>l. disk_write_loop env lba buffer n k s = (True, s\<lparr>io_log := l\<rparr>) \<and>
    ata_disk d l = write_sectors (ata_disk d (io_log s)) (FAT32_START_LBA + lba + k)
      (load_bytes (mem s) buffer (512 * (unat n - unat k)))"
  using assms
proof (induction env lba buffer n k s rule: disk_write_loop.induct)
  case (1 env lba buffer n k s)
  note drive = 1(2,3,4)
  show ?case
  proof (cases "k < n")
    case True
    let ?a = "FAT32_START_LBA + lba + k" and ?D = "ata_disk d (io_log s)"
    have kn: "unat k < unat n" using True by (simp add: word_less_nat_alt)
    have acap: "unat ?a < cap" using real_lba [OF 1(5) drive(3) True] 1(5) kn by simp
    obtain l where l: "wait_not_busy env 10000000 (ata_command 0x30 ?a s) = (True, s\<lparr>io_log := l\<rparr>)"
      "wait_write_request env 10000000 (s\<lparr>io_log := l\<rparr>) = (True, s\<lparr>io_log := In8 ATA_STATUS # l\<rparr>)"
      "ata_pending 0x30 ?a (In8 ATA_STATUS # l)" "ata_disk d (In8 ATA_STATUS # l) = ?D"
      using ata_transfer_ready [OF drive acap, of "0x30"] by metis
    let ?s1 = "s\<lparr>io_log := In8 ATA_STATUS # l\<rparr>"
    let ?s2 = "outsw ATA_DATA buffer 256 ?s1"
    have 2: "?s2 = s\<lparr>io_log := io_log ?s2\<rparr>" "mem ?s2 = mem s" by (simp_all only: outsw_log) simp_all
    have "ata_disk d (io_log ?s2) = (ata_disk d (In8 ATA_STATUS # l))(?a :=
        concat (map (le_encode 2 \<circ> (\<lambda>i. load16 (mem s) (buffer + 2 * of_nat i))) [0..<256]))"
      using ata_disk_words [of "In8 ATA_STATUS # l" ?a 256 d "\<lambda>i. load16 (mem s) (buffer + 2 * of_nat i)"] l(3)
      by (simp add: outsw_log ata_pending_def)
    then have 3: "ata_disk d (io_log ?s2) = ?D(?a := load_bytes (mem s) buffer 512)"
      using l(4) concat_words [of "mem s" buffer 256] by (simp add: comp_def)
    have step: "disk_write_loop env lba buffer n k s = disk_write_loop env lba (buffer + 512) n (k + 1) ?s2"
      using True l(1,2) by (subst disk_write_loop.simps) (simp add: Let_def)
    have k1: "unat (k + 1) = Suc (unat k)" using True by (rule unat_inc_less)
    have le: "k + 1 \<le> n" using k1 kn by (simp add: word_le_nat_alt)
    obtain l' where l': "disk_write_loop env lba (buffer + 512) n (k + 1) ?s2 = (True, ?s2\<lparr>io_log := l'\<rparr>)"
      "ata_disk d l' = write_sectors (ata_disk d (io_log ?s2)) (FAT32_START_LBA + lba + (k + 1))
        (load_bytes (mem ?s2) (buffer + 512) (512 * (unat n - unat (k + 1))))"
      using 1(1) [OF True refl refl l(1) [symmetric] refl _ l(2) [symmetric] refl _ drive 1(5) le] by auto
    have "unat n < 4294967296" by (rule unat_lt_u32)
    then have lt: "unat n - unat (k + 1) < 4294967295" using kn k1 by simp
    have "512 * (unat n - unat k) = 512 + 512 * (unat n - unat (k + 1))" using kn k1 by simp
    then have bytes: "load_bytes (mem s) buffer (512 * (unat n - unat k)) =
        load_bytes (mem s) buffer 512 @ load_bytes (mem s) (buffer + 512) (512 * (unat n - unat (k + 1)))"
      by (simp only: load_bytes_append) simp
    have "ata_disk d l' = write_sectors ?D ?a (load_bytes (mem s) buffer (512 * (unat n - unat k)))"
      using write_sectors_Cons [OF _ _ lt, of "load_bytes (mem s) buffer 512" _ ?D ?a] l'(2)
      unfolding bytes 2(2) 3 by (simp add: add.assoc)
    moreover have "?s2\<lparr>io_log := l'\<rparr> = s\<lparr>io_log := l'\<rparr>" by (subst 2(1)) simp
    ultimately show ?thesis unfolding step using l'(1) by auto
  next
    case False
    then have "unat k = unat n" using 1(6) by simp
    then show ?thesis using False by (subst disk_write_loop.simps) (auto intro!: exI [of _ "io_log s"])
  qed
qed


lemma ata_disk_length: "\<forall>a. length (d a) = 512 \<Longrightarrow> length (ata_disk d l a) = 512"
proof (induction l arbitrary: a)
  case (Cons e l)
  have "length (concat (map (le_encode 2) ws)) = 2 * length ws" for ws :: "u16 list"
    by (induction ws) simp_all
  then show ?case using Cons by (auto simp: ata_log_simps split: io_event.splits option.splits)
qed (simp add: ata_log_simps)

subsection \<open>The interface of a block device\<close>

definition sectors_from :: "disk \<Rightarrow> u32 \<Rightarrow> nat \<Rightarrow> u8 list" where
  "sectors_from p lba n = concat (map (\<lambda>j. p (lba + of_nat j)) [0..<n])"

text \<open>
  A device of \<open>cap\<close> sectors that in state \<open>s\<close> holds the contents \<open>p\<close>. A read puts the sectors
  into the memory of the machine and a write takes them from there.
\<close>

locale block_device =
  fixes holds :: "'s \<Rightarrow> disk \<Rightarrow> bool"
    and cap :: nat
    and bread bwrite :: "u32 \<Rightarrow> ptr \<Rightarrow> u32 \<Rightarrow> 's \<Rightarrow> bool \<times> 's"
    and bytes :: "'s \<Rightarrow> memory"
    and upd :: "memory \<Rightarrow> 'l \<Rightarrow> 's \<Rightarrow> 's"
  assumes sector_size: "holds s p \<Longrightarrow> unat a < cap \<Longrightarrow> length (p a) = 512"
    and small: "holds s p \<Longrightarrow> cap < 4294967296"
    and bytes_upd: "bytes (upd m l s) = m"
    and read_law: "holds s p \<Longrightarrow> n \<noteq> 0 \<Longrightarrow> unat lba + unat n \<le> cap \<Longrightarrow>
      \<exists>l. bread lba buf n s = (True, upd (store_bytes buf (sectors_from p lba (unat n)) (bytes s)) l s) \<and>
        holds (upd (store_bytes buf (sectors_from p lba (unat n)) (bytes s)) l s) p"
    and write_law: "holds s p \<Longrightarrow> n \<noteq> 0 \<Longrightarrow> unat lba + unat n \<le> cap \<Longrightarrow>
      \<exists>l. bwrite lba buf n s = (True, upd (bytes s) l s) \<and>
        holds (upd (bytes s) l s) (write_sectors p lba (load_bytes (bytes s) buf (512 * unat n)))"
begin

lemma sector_addr:
  fixes lba :: u32
  assumes "holds s p" "unat lba + n \<le> cap" "j < n"
  shows "unat (lba + of_nat j) = unat lba + j"
  using small [OF assms(1)] assms(2,3) by (intro unat_add_of_nat) simp

lemma length_sectors:
  assumes "holds s p" "unat lba + n \<le> cap"
  shows "length (sectors_from p lba n) = 512 * n"
proof -
  have "map (length \<circ> (\<lambda>j. p (lba + of_nat j))) [0..<n] = map (\<lambda>j. 512) [0..<n]"
    using sector_size [OF assms(1)] sector_addr [OF assms] assms(2) by auto
  then show ?thesis
    by (simp add: sectors_from_def length_concat map_replicate_const sum_list_replicate del: map_eq_conv)
qed

text \<open>What has been written is read back, also into another buffer.\<close>

lemma sectors_written:
  assumes "length bs = 512 * n" "unat lba + n \<le> cap" "holds s p"
  shows "sectors_from (write_sectors p lba bs) lba n = bs"
proof -
  have "n < 4294967296" using small [OF assms(3)] assms(2) by simp
  then have "map (\<lambda>j. write_sectors p lba bs (lba + of_nat j)) [0..<n] = map (\<lambda>j. take 512 (drop (512 * j) bs)) [0..<n]"
    using assms(1) unat_add_of_nat [of "0 :: u32"] by (auto simp: write_sectors_def)
  moreover have "concat (map (\<lambda>j. take 512 (drop (512 * j) bs)) [0..<k]) = take (512 * k) bs" for k
    by (induction k) (simp_all add: take_add [symmetric] algebra_simps)
  ultimately show ?thesis using assms(1) by (simp add: sectors_from_def del: map_eq_conv)
qed

lemma write_read:
  assumes "holds s p" "n \<noteq> 0" "unat lba + unat n \<le> cap"
  shows "\<exists>s1 s2. bwrite lba buf n s = (True, s1) \<and> bread lba buf2 n s1 = (True, s2) \<and>
    load_bytes (bytes s2) buf2 (512 * unat n) = load_bytes (bytes s) buf (512 * unat n)"
proof -
  let ?bs = "load_bytes (bytes s) buf (512 * unat n)"
  obtain s1 where 1: "bwrite lba buf n s = (True, s1)" "bytes s1 = bytes s" "holds s1 (write_sectors p lba ?bs)"
    using write_law [OF assms, of buf] bytes_upd by blast
  obtain s2 where 2: "bread lba buf2 n s1 = (True, s2)"
    "bytes s2 = store_bytes buf2 (sectors_from (write_sectors p lba ?bs) lba (unat n)) (bytes s1)"
    using read_law [OF 1(3) assms(2,3), of buf2] bytes_upd by blast
  have "sectors_from (write_sectors p lba ?bs) lba (unat n) = ?bs"
    using assms by (intro sectors_written) simp_all
  moreover have "512 * unat n \<le> 18446744073709551616" using unat_lt_u32 [of n] by simp
  ultimately have "load_bytes (bytes s2) buf2 (512 * unat n) = ?bs"
    using load_store_bytes [of ?bs buf2 "bytes s1"] 2(2) by simp
  with 1 2 show ?thesis by blast
qed

end


subsection \<open>The driver is a block device\<close>

lemma disk_ok_cong: "io_log s = io_log t \<Longrightarrow> disk_ok env cap s p \<longleftrightarrow> disk_ok env cap t p"
  by (simp add: disk_ok_def)

lemma disk_ok_mem [simp]: "disk_ok env cap (s\<lparr>mem := m\<rparr>) p \<longleftrightarrow> disk_ok env cap s p"
  by (rule disk_ok_cong) simp

interpretation ata: block_device "disk_ok env cap" cap "disk_read env" "disk_write env" mem
  "\<lambda>m l (s :: 'a io_state_scheme). s\<lparr>mem := m, io_log := l\<rparr>" for env cap
proof
  fix s :: "'a io_state_scheme" and p :: disk and a :: u32
  assume ok: "disk_ok env cap s p"
  then show "unat a < cap \<Longrightarrow> length (p a) = 512"
    using ata_disk_length by (auto simp: disk_ok_def)
  show "cap < 4294967296" using ok by (auto simp: disk_ok_def)
next
  fix m :: memory and l and s :: "'a io_state_scheme"
  show "mem (s\<lparr>mem := m, io_log := l\<rparr>) = m" by simp
next
  fix s :: "'a io_state_scheme" and p :: disk and n lba :: u32 and buf
  assume ok: "disk_ok env cap s p" and n: "n \<noteq> 0" "unat lba + unat n \<le> cap"
  from ok obtain lat d where d: "ata_drive env lat (2048 + cap) d" "lat < 10000000" "2048 + cap \<le> 268435456"
    "\<forall>a. length (d a) = 512" "\<And>a. unat a < cap \<Longrightarrow> p a = ata_disk d (io_log s) (FAT32_START_LBA + a)"
    by (auto simp: disk_ok_def)
  have c: "2048 + unat lba + unat n \<le> 2048 + cap" using n(2) by simp
  have at: "unat (lba + of_nat j) = unat lba + j" if "j < unat n" for j
    using that n(2) d(3) by (intro unat_add_of_nat) simp
  obtain l where l: "disk_read_loop env lba buf n 0 s = (True, s\<lparr>io_log := l,
      mem := store_bytes buf (concat (map (\<lambda>j. ata_disk d (io_log s) (FAT32_START_LBA + lba + of_nat j)) [0..<unat n])) (mem s)\<rparr>)"
    "ata_disk d l = ata_disk d (io_log s)"
    using disk_read_loop_ok [OF d(1,2,3) _ c, where k = 0 and s = s and buffer = buf] ata_disk_length [OF d(4)] by auto
  have "map (\<lambda>j. ata_disk d (io_log s) (FAT32_START_LBA + lba + of_nat j)) [0..<unat n] =
      map (\<lambda>j. p (lba + of_nat j)) [0..<unat n]"
    using d(5) at n(2) by (auto simp: add.assoc)
  then have "disk_read env lba buf n s = (True, s\<lparr>mem := store_bytes buf (sectors_from p lba (unat n)) (mem s), io_log := l\<rparr>)"
    using l(1) n(1) by (simp add: disk_read_def sectors_from_def del: map_eq_conv)
  moreover have "disk_ok env cap (s\<lparr>mem := store_bytes buf (sectors_from p lba (unat n)) (mem s), io_log := l\<rparr>) p"
    unfolding disk_ok_def using d l(2) by (intro exI [of _ lat] exI [of _ d]) simp
  ultimately show "\<exists>l. disk_read env lba buf n s =
      (True, s\<lparr>mem := store_bytes buf (sectors_from p lba (unat n)) (mem s), io_log := l\<rparr>) \<and>
    disk_ok env cap (s\<lparr>mem := store_bytes buf (sectors_from p lba (unat n)) (mem s), io_log := l\<rparr>) p"
    by blast
  let ?bs = "load_bytes (mem s) buf (512 * unat n)"
  obtain l where l: "disk_write_loop env lba buf n 0 s = (True, s\<lparr>io_log := l\<rparr>)"
    "ata_disk d l = write_sectors (ata_disk d (io_log s)) (FAT32_START_LBA + lba) ?bs"
    using disk_write_loop_ok [OF d(1,2,3) c, where k = 0 and s = s and buffer = buf] by auto
  have "ata_disk d l (FAT32_START_LBA + a) = write_sectors p lba ?bs a" if "unat a < cap" for a
    using d(5) [OF that] by (simp add: l(2) write_sectors_def)
  then have "disk_ok env cap (s\<lparr>mem := mem s, io_log := l\<rparr>) (write_sectors p lba ?bs)"
    unfolding disk_ok_def using d by (intro exI [of _ lat] exI [of _ d]) simp
  moreover have "disk_write env lba buf n s = (True, s\<lparr>mem := mem s, io_log := l\<rparr>)"
    using l(1) n(1) by (simp add: disk_write_def)
  ultimately show "\<exists>l. disk_write env lba buf n s = (True, s\<lparr>mem := mem s, io_log := l\<rparr>) \<and>
      disk_ok env cap (s\<lparr>mem := mem s, io_log := l\<rparr>) (write_sectors p lba ?bs)"
    by blast
qed


lemmas disk_read_law = ata.read_law
lemmas disk_write_law = ata.write_law

subsection \<open>Properties of the driver\<close>

text \<open>A drive that is always ready, for concrete runs.\<close>

definition ready_drive :: "disk \<Rightarrow> io_env" where
  "ready_drive d h = (case h of
     In8 q # l \<Rightarrow> 0x08
   | In16 q # l \<Rightarrow> (case ata_cmd l of
       Some (c, a) \<Rightarrow> ucast (le_decode [ata_disk d l a ! (2 * ata_words l), ata_disk d l a ! (2 * ata_words l + 1)] :: u16)
     | None \<Rightarrow> 0)
   | _ \<Rightarrow> 0)"

lemma ready_drive_ok: "\<forall>a. length (d a) = 512 \<Longrightarrow> ata_drive (ready_drive d) 0 cap d"
proof -
  have "ucast (ucast w :: u32) = w" for w :: u16
    by (rule bit_word_eqI) (simp add: bit_simps)
  then show ?thesis
    by (simp add: ata_drive_def ready_drive_def ata_status_def ATA_SR_BSY_def ATA_SR_DRQ_def ATA_SR_ERR_def
        del: le_decode.simps)
qed

definition io_start :: io_state where
  "io_start = process_state.extend static_process_state (io_state.fields [])"

lemma ready_disk_ok:
  assumes "\<forall>a. length (d a) = 512" "cap \<le> 268433408"
  shows "disk_ok (ready_drive d) cap io_start (\<lambda>a. d (FAT32_START_LBA + a))"
  unfolding disk_ok_def using ready_drive_ok [OF assms(1)] assms
  by (intro exI [of _ 0] exI [of _ d]) (simp add: io_start_def io_state.defs process_state.defs ata_log_simps)

text \<open>
  C24: On a drive that follows the ATA protocol, a read of sectors inside the partition
  succeeds: the buffer then holds the bytes of these sectors in their order, no other
  byte of memory has changed, and the disk still holds what it did.
\<close>

theorem disk_read_correct:
  fixes s :: "'a io_state_scheme"
  assumes "disk_ok env cap s p" "n \<noteq> 0" "unat lba + unat n \<le> cap"
  shows "\<exists>s'. disk_read env lba buf n s = (True, s') \<and> disk_ok env cap s' p \<and>
    load_bytes (mem s') buf (512 * unat n) = sectors_from p lba (unat n) \<and>
    (\<forall>x. x \<notin> span buf (512 * unat n) \<longrightarrow> mem s' x = mem s x)"
proof -
  let ?bs = "sectors_from p lba (unat n)"
  obtain l where l: "disk_read env lba buf n s = (True, s\<lparr>mem := store_bytes buf ?bs (mem s), io_log := l\<rparr>)"
    "disk_ok env cap (s\<lparr>mem := store_bytes buf ?bs (mem s), io_log := l\<rparr>) p"
    using ata.read_law [OF assms] by blast
  have len: "length ?bs = 512 * unat n" using ata.length_sectors [OF assms(1,3)] .
  have small: "512 * unat n \<le> 18446744073709551616" using unat_lt_u32 [of n] by simp
  show ?thesis
    using l load_store_bytes [of ?bs buf "mem s"] store_bytes_other [of ?bs _ buf "mem s"] len small
    by (intro exI [of _ "s\<lparr>mem := store_bytes buf ?bs (mem s), io_log := l\<rparr>"]) simp
qed

definition const_disk :: "u8 \<Rightarrow> disk" where
  "const_disk b a = replicate 512 b"

lemma length_const_disk [simp]: "length (const_disk b a) = 512"
  by (simp only: const_disk_def length_replicate)

lemma const_disk_ok: "cap \<le> 268433408 \<Longrightarrow> disk_ok (ready_drive (const_disk b)) cap io_start (const_disk b)"
proof -
  assume "cap \<le> 268433408"
  moreover have "(\<lambda>a. const_disk b (FAT32_START_LBA + a)) = const_disk b"
    by (simp only: fun_eq_iff const_disk_def) simp
  ultimately show ?thesis using ready_disk_ok [of "const_disk b" cap] by simp
qed

theorem disk_read_correct_witness:
  "\<exists>s'. disk_read (ready_drive (const_disk 7)) 0 0x9000 2 io_start = (True, s') \<and>
     load_bytes (mem s') 0x9000 1024 = sectors_from (const_disk 7) 0 2"
  using disk_read_correct [OF const_disk_ok, of 100 2 0 7 "0x9000"] by fastforce



text \<open>A drive that never leaves the busy state.\<close>

lemma wait_not_busy_stuck:
  assumes "\<And>l. ata_status env l AND ATA_SR_BSY \<noteq> 0" "t \<noteq> 0"
  shows "\<exists>l. wait_not_busy env t s = (False, s\<lparr>io_log := l\<rparr>) \<and> ata_polls l = ata_polls (io_log s) + unat t"
  using assms
proof (induction env t s rule: wait_not_busy.induct)
  case (1 env t s)
  let ?s = "s\<lparr>io_log := In8 ATA_STATUS # io_log s\<rparr>"
  show ?case
  proof (cases "t - 1 = 0")
    case True
    then have "t = 1" by simp
    then show ?thesis
      using 1(2)
      by (intro exI [of _ "io_log ?s"], subst wait_not_busy.simps) (simp add: inb_status Let_def ata_log_simps)
  next
    case False
    have step: "wait_not_busy env t s = wait_not_busy env (t - 1) ?s"
      using 1(2) False by (subst wait_not_busy.simps) (simp add: inb_status Let_def)
    from 1(1) [OF inb_status [symmetric] refl 1(2) refl False 1(2) False] dec_measure [OF 1(3)]
    show ?thesis unfolding step by (auto simp: ata_log_simps)
  qed
qed

text \<open>
  C26: A drive that stays busy cannot hang the kernel: \<open>disk_read\<close> gives up after ten
  million status reads, reports the time-out on the console and returns false with memory
  untouched.
\<close>

theorem disk_read_timeout:
  fixes s :: "'a io_state_scheme"
  assumes "\<And>l. ucast (env (In8 ATA_STATUS # l)) AND ATA_SR_BSY \<noteq> 0" "n \<noteq> 0"
  shows "\<exists>s'. disk_read env lba buf n s = (False, s') \<and> ata_polls (io_log s') = 10000000 \<and> mem s' = mem s \<and>
    serial_out s' = serial_out s @ crlf ''[OS] [IO] Timeout waiting for BSY clear\<newline>''"
proof -
  have b: "ata_status env l AND ATA_SR_BSY \<noteq> 0" for l using assms(1) by (simp add: ata_status_def)
  let ?s = "ata_command ATA_CMD_READ (FAT32_START_LBA + lba + 0) s"
  have c: "ata_polls (io_log ?s) = 0" "mem ?s = mem s" "serial_out ?s = serial_out s"
    by (simp_all add: ata_command_def outb_def Let_def ata_log_simps)
  obtain l where l: "wait_not_busy env 10000000 ?s = (False, ?s\<lparr>io_log := l\<rparr>)" "ata_polls l = 10000000"
    using wait_not_busy_stuck [OF b, of 10000000 ?s] c(1) by auto
  have "0 < n" using assms(2) by (simp add: word_neq_0_conv)
  then have "disk_read env lba buf n s =
      (False, serial_write_string (''[OS] [IO] Timeout waiting for BSY clear'' @ [CHR 0x0A]) (?s\<lparr>io_log := l\<rparr>))"
    unfolding disk_read_def using assms(2) l(1) by (subst disk_read_loop.simps) (simp add: Let_def)
  then show ?thesis using c(2,3) l(2) by (simp add: serial_simps)
qed

theorem disk_read_timeout_witness:
  "\<exists>s'. disk_read (\<lambda>l. 0x80) 0 0x9000 1 io_start = (False, s') \<and> ata_polls (io_log s') = 10000000"
  using disk_read_timeout [of "\<lambda>l. 0x80" 1 0 "0x9000" io_start] by (auto simp: ATA_SR_BSY_def)

end
