(* ===== verification/FAT32.thy ===== *)
theory FAT32
  imports Disk_Device
begin

text \<open>
  The FAT32 file system of \<open>Kernel/Drivers/FileSystem/FAT32/FAT32_Main.c\<close>. The buffers that
  the C functions keep on their stack lie at addresses the compiler chooses; they are the
  argument \<open>loc\<close>. A result \<open>None\<close> means that the call does not return: a division by zero,
  when the boot sector gave a sector size of 0, faults, and printing a string ends only at
  its zero byte.
\<close>

record FAT32_BPB =
  bytes_per_sector :: u16
  sectors_per_cluster :: u8
  reserved_sectors :: u16
  num_fats :: u8
  fat_size_sectors :: u32
  root_cluster :: u32

record FAT32_FILE =
  file_name :: "u8 list"
  first_cluster :: u32
  file_size :: u32

record fat_state = io_state +
  bpb :: FAT32_BPB

record fat_locals =
  next_buf :: ptr
  set_buf :: ptr
  init_sector :: ptr
  find_buf :: ptr
  read_buf :: ptr
  write_buf :: ptr
  list_buf :: ptr
  lfn_stack :: ptr

abbreviation bps :: "'a fat_state_scheme \<Rightarrow> u32" where
  "bps s \<equiv> ucast (bytes_per_sector (bpb s))"

abbreviation spc :: "'a fat_state_scheme \<Rightarrow> u32" where
  "spc s \<equiv> ucast (sectors_per_cluster (bpb s))"

function memcmp_local :: "(u32 \<Rightarrow> u8) \<Rightarrow> (u32 \<Rightarrow> u8) \<Rightarrow> u32 \<Rightarrow> u32 \<Rightarrow> int" where
  "memcmp_local p q n i =
     (if i < n then if p i \<noteq> q i then uint (p i) - uint (q i) else memcmp_local p q n (i + 1) else 0)"
  by pat_completeness auto
termination
  by (relation "measure (\<lambda>(p, q, n, i). unat n - unat i)") (auto intro: inc_measure)

declare memcmp_local.simps [simp del]

definition fat_start_lba :: "'a fat_state_scheme \<Rightarrow> u32" where
  "fat_start_lba s = ucast (reserved_sectors (bpb s))"

definition data_start_lba :: "'a fat_state_scheme \<Rightarrow> u32" where
  "data_start_lba s = ucast (reserved_sectors (bpb s)) + ucast (num_fats (bpb s)) * fat_size_sectors (bpb s)"

definition cluster_to_lba :: "u32 \<Rightarrow> 'a fat_state_scheme \<Rightarrow> u32" where
  "cluster_to_lba cluster s =
     (if cluster < 2 then 0 else data_start_lba s + (cluster - 2) * spc s)"

definition fat_get_next_cluster ::
  "io_env \<Rightarrow> fat_locals \<Rightarrow> u32 \<Rightarrow> 'a fat_state_scheme \<Rightarrow> (u32 \<times> 'a fat_state_scheme) option" where
  "fat_get_next_cluster env loc cluster s =
     (if cluster < 2 \<or> cluster \<ge> 0x0FFFFFF8 then Some (0x0FFFFFFF, s)
      else if bps s = 0 then None
      else let fat_offset = cluster * 4;
               sector = fat_start_lba s + fat_offset div bps s;
               offset = fat_offset mod bps s
           in if offset + 4 > bps s then Some (0x0FFFFFFF, s)
              else let buf = next_buf loc;
                       (ok, s) = disk_read env sector buf 1 s
                   in if \<not> ok then Some (0x0FFFFFFF, s)
                      else let m = mem s;
                               val = ucast (m (buf + ucast offset)) OR
                                 push_bit 8 (ucast (m (buf + ucast (offset + 1)))) OR
                                 push_bit 16 (ucast (m (buf + ucast (offset + 2)))) OR
                                 push_bit 24 (ucast (m (buf + ucast (offset + 3))))
                           in Some (val AND 0x0FFFFFFF, s))"

lemma bpb_kept: "io_frame s s' \<Longrightarrow> bpb s' = bpb s" for s s' :: "'a fat_state_scheme"
proof -
  assume "io_frame s s'"
  then have "bpb s' = bpb (s\<lparr>mem := mem s', io_log := io_log s', serial_out := serial_out s'\<rparr>)"
    unfolding io_frame_iff by (rule arg_cong)
  then show ?thesis by simp
qed

function set_next_loop ::
  "io_env \<Rightarrow> ptr \<Rightarrow> u32 \<Rightarrow> u32 \<Rightarrow> u32 \<Rightarrow> u32 \<Rightarrow> 'a fat_state_scheme \<Rightarrow> bool \<times> 'a fat_state_scheme" where
  "set_next_loop env buf fat_offset offset next fat s =
     (if fat < ucast (num_fats (bpb s))
      then let sector = fat_start_lba s + fat * fat_size_sectors (bpb s) + fat_offset div bps s;
               (ok, s) = disk_read env sector buf 1 s
           in if \<not> ok then (False, s)
              else let m = mem s;
                       m = m(buf + ucast offset := ucast (next AND 0xFF));
                       m = m(buf + ucast (offset + 1) := ucast (drop_bit 8 next AND 0xFF));
                       m = m(buf + ucast (offset + 2) := ucast (drop_bit 16 next AND 0xFF));
                       m = m(buf + ucast (offset + 3) :=
                         (m (buf + ucast (offset + 3)) AND 0xF0) OR ucast (drop_bit 24 next AND 0x0F));
                       (ok, s) = disk_write env sector buf 1 (s\<lparr>mem := m\<rparr>)
                   in if \<not> ok then (False, s)
                      else set_next_loop env buf fat_offset offset next (fat + 1) s
      else (True, s))"
  by pat_completeness auto
termination
proof (relation "measure (\<lambda>(env, buf, fat_offset, offset, next, fat, s).
      unat (ucast (num_fats (bpb s)) :: u32) - unat fat)", rule wf_measure, goal_cases)
  case (1 env buf fat_offset offset nxt fat s x xa ok y m0 m1 m2 m3 m4 xaf ok2 ya)
  have "bpb y = bpb s" using bpb_kept [OF disk_frame(1)] 1(3,4) by metis
  moreover have "bpb ya = bpb (y\<lparr>mem := m4\<rparr>)" using bpb_kept [OF disk_frame(2)] 1(11,12) by metis
  ultimately show ?case using inc_measure [OF 1(1)] by simp
qed

declare set_next_loop.simps [simp del]


definition fat_set_next_cluster ::
  "io_env \<Rightarrow> fat_locals \<Rightarrow> u32 \<Rightarrow> u32 \<Rightarrow> 'a fat_state_scheme \<Rightarrow> (bool \<times> 'a fat_state_scheme) option" where
  "fat_set_next_cluster env loc cluster next s =
     (if cluster < 2 \<or> cluster \<ge> 0x0FFFFFF8 then Some (False, s)
      else if bps s = 0 then None
      else let fat_offset = cluster * 4;
               offset = fat_offset mod bps s
           in if offset + 4 > bps s then Some (False, s)
              else Some (set_next_loop env (set_buf loc) fat_offset offset next 0 s))"

definition fat32_get_file_size :: "FAT32_FILE option \<Rightarrow> u32" where
  "fat32_get_file_size file = (case file of None \<Rightarrow> 0 | Some f \<Rightarrow> file_size f)"

definition fat32_init :: "io_env \<Rightarrow> fat_locals \<Rightarrow> 'a fat_state_scheme \<Rightarrow> bool \<times> 'a fat_state_scheme" where
  "fat32_init env loc s =
     (let sector = init_sector loc;
          (ok, s) = disk_read env 0 sector 1 s
      in if \<not> ok then (False, s)
         else let m = mem s;
                  b = \<lparr>bytes_per_sector = load16 m (sector + 11),
                       sectors_per_cluster = m (sector + 13),
                       reserved_sectors = load16 m (sector + 14),
                       num_fats = m (sector + 16),
                       fat_size_sectors = load32 m (sector + 36),
                       root_cluster = load32 m (sector + 44)\<rparr>;
                  s = s\<lparr>bpb := b\<rparr>
              in if bytes_per_sector b = 0 \<or> bytes_per_sector b > 4096 then (False, s)
                 else if sectors_per_cluster b = 0 \<or> sectors_per_cluster b > 128 then (False, s)
                 else if num_fats b = 0 \<or> num_fats b > 2 then (False, s)
                 else if root_cluster b < 2 then (False, s)
                 else (True, msg ''[OS] [FAT32] Init Success'' s))"

subsection \<open>Looking up a file\<close>

text \<open>The scan of one directory sector: the entry found, the end of the directory, or neither.\<close>

datatype scan = Found u32 | End | Next

lemma entry_measure: "i < ucast (n :: u16) \<Longrightarrow> unat n - unat (i + 32) < unat n - unat i"
  for i :: u32
proof -
  assume "i < ucast n"
  then have "unat i < unat n" by (simp add: word_less_nat_alt)
  moreover have "unat n < 65536" using unsigned_less [of n] by simp
  ultimately show ?thesis using unat_add_of_nat [of i 32] by simp
qed

function find_entry_loop :: "u8 list \<Rightarrow> ptr \<Rightarrow> memory \<Rightarrow> u16 \<Rightarrow> u32 \<Rightarrow> scan" where
  "find_entry_loop filename buf m n i =
     (if i < ucast n
      then if m (buf + ucast i) = 0 then End
           else if m (buf + ucast i) = 0xE5 then find_entry_loop filename buf m n (i + 32)
           else let attr = m (buf + ucast (i + 11))
                in if attr AND 0x0F = 0x0F then find_entry_loop filename buf m n (i + 32)
                   else if attr AND 0x08 \<noteq> 0 then find_entry_loop filename buf m n (i + 32)
                   else if memcmp_local (\<lambda>k. filename ! unat k) (\<lambda>k. m (buf + ucast i + ucast k)) 11 0 = 0
                        then Found i
                        else find_entry_loop filename buf m n (i + 32)
      else Next)"
  by pat_completeness auto
termination
  by (relation "measure (\<lambda>(filename, buf, m, n, i). unat n - unat i)") (auto intro: entry_measure)


declare find_entry_loop.simps [simp del]

text \<open>The sectors of one cluster of the directory.\<close>

function find_sector_loop ::
  "io_env \<Rightarrow> ptr \<Rightarrow> u8 list \<Rightarrow> u32 \<Rightarrow> u8 \<Rightarrow> 'a fat_state_scheme \<Rightarrow> scan \<times> 'a fat_state_scheme" where
  "find_sector_loop env buf filename cluster sec s =
     (if sec < sectors_per_cluster (bpb s)
      then let lba = cluster_to_lba cluster s
           in if lba = 0 then (End, s)
              else let (ok, s) = disk_read env (lba + ucast sec) buf 1 s
                   in if \<not> ok then (End, s)
                      else case find_entry_loop filename buf (mem s) (bytes_per_sector (bpb s)) 0 of
                             Next \<Rightarrow> find_sector_loop env buf filename cluster (sec + 1) s
                           | r \<Rightarrow> (r, s)
      else (Next, s))"
  by pat_completeness auto
termination
proof (relation "measure (\<lambda>(env, buf, filename, cluster, sec, s).
      unat (sectors_per_cluster (bpb s)) - unat sec)", rule wf_measure, goal_cases)
  case (1 env buf filename cluster sec s lba xa ok y)
  have "bpb y = bpb s" using bpb_kept [OF disk_frame(1)] 1(4,5) by metis
  then show ?case using inc_measure [OF 1(1)] by simp
qed

declare find_sector_loop.simps [simp del]

lemma find_sector_frame: "io_frame s (snd (find_sector_loop env buf filename cluster sec s))"
proof (induction env buf filename cluster sec s rule: find_sector_loop.induct)
  case (1 env buf filename cluster sec s)
  obtain ok t where t: "disk_read env (cluster_to_lba cluster s + ucast sec) buf 1 s = (ok, t)" by fastforce
  have f: "io_frame s t" using disk_frame(1) [OF t] .
  show ?case
    using f 1 [OF _ refl _ t [symmetric] refl]
    by (subst find_sector_loop.simps) (auto simp: Let_def t io_frame_def split: scan.splits)
qed

lemma next_cluster_frame: "fat_get_next_cluster env loc cluster s = Some (v, t) \<Longrightarrow> io_frame s t"
  by (auto simp: fat_get_next_cluster_def Let_def io_frame_def split: prod.splits if_splits dest: disk_frame(1))

text \<open>The cluster chain of the root directory; the loop ends after as many clusters as the FAT has entries.\<close>

function find_cluster_loop ::
  "io_env \<Rightarrow> fat_locals \<Rightarrow> u8 list \<Rightarrow> u32 \<Rightarrow> u32 \<Rightarrow> u32 \<Rightarrow> 'a fat_state_scheme \<Rightarrow> (scan \<times> 'a fat_state_scheme) option" where
  "find_cluster_loop env loc filename max_c c cluster s =
     (if c < max_c
      then let (r, s) = find_sector_loop env (find_buf loc) filename cluster 0 s
           in if r \<noteq> Next then Some (r, s)
              else do {
                (next, s) \<leftarrow> fat_get_next_cluster env loc cluster s;
                if next < 2 \<or> next \<ge> 0x0FFFFFF8 then Some (End, s)
                else find_cluster_loop env loc filename max_c (c + 1) next s
              }
      else Some (End, s))"
  by pat_completeness auto
termination
  by (relation "measure (\<lambda>(env, loc, filename, max_c, c, cluster, s). unat max_c - unat c)")
    (auto intro: inc_measure)

declare find_cluster_loop.simps [simp del]

definition max_clusters :: "'a fat_state_scheme \<Rightarrow> u32" where
  "max_clusters s = fat_size_sectors (bpb s) * bps s div 4"

definition fat32_find_file ::
  "io_env \<Rightarrow> fat_locals \<Rightarrow> u8 list option \<Rightarrow> FAT32_FILE option \<Rightarrow> 'a fat_state_scheme \<Rightarrow>
     (bool \<times> FAT32_FILE option \<times> 'a fat_state_scheme) option" where
  "fat32_find_file env loc filename file s =
     (case (filename, file) of
        (Some name, Some f) \<Rightarrow> do {
          (r, s) \<leftarrow> find_cluster_loop env loc name (max_clusters s) 0 (root_cluster (bpb s)) s;
          case r of
            Found i \<Rightarrow>
              let e = find_buf loc + ucast i;
                  high = load16 (mem s) (e + 20);
                  low = load16 (mem s) (e + 26);
                  f = f\<lparr>first_cluster := push_bit 16 (ucast high) OR ucast low,
                        file_size := load32 (mem s) (e + 28),
                        file_name := load_bytes (mem s) e 11 @ [0]\<rparr>
              in Some (True, Some f, s)
          | _ \<Rightarrow> Some (False, file, s)
        }
      | _ \<Rightarrow> Some (False, file, s))"

subsection \<open>Reading and writing a file\<close>

partial_function (option) read_file_loop ::
  "io_env \<Rightarrow> fat_locals \<Rightarrow> u32 \<Rightarrow> u32 \<Rightarrow> ptr \<Rightarrow> u32 \<Rightarrow> 'a fat_state_scheme \<Rightarrow> (bool \<times> 'a fat_state_scheme) option" where
  "read_file_loop env loc cluster_size cluster buffer bytes_left s =
     (if bytes_left = 0 then Some (True, s)
      else let lba = cluster_to_lba cluster s
           in if lba = 0 then Some (False, s)
              else let n_read = (if bytes_left > cluster_size then cluster_size else bytes_left);
                       (ok, s) = disk_read env lba (read_buf loc) (spc s) s
                   in if \<not> ok then Some (False, msg ''[OS] [FAT32] Disk read failed'' s)
                      else let s = s\<lparr>mem := memcpy buffer (read_buf loc) (ucast n_read) (mem s)\<rparr>;
                               bytes_left = bytes_left - n_read
                           in do {
                                (next, s) \<leftarrow> fat_get_next_cluster env loc cluster s;
                                if next < 2 \<or> next \<ge> 0x0FFFFFF8 then Some (bytes_left = 0, s)
                                else read_file_loop env loc cluster_size next (buffer + ucast n_read) bytes_left s
                              })"

definition fat32_read_file ::
  "io_env \<Rightarrow> fat_locals \<Rightarrow> FAT32_FILE option \<Rightarrow> ptr \<Rightarrow> 'a fat_state_scheme \<Rightarrow> (bool \<times> 'a fat_state_scheme) option" where
  "fat32_read_file env loc file buffer s =
     (case file of
        None \<Rightarrow> Some (False, s)
      | Some f \<Rightarrow>
          if buffer = NULL then Some (False, s)
          else read_file_loop env loc (spc s * bps s) (first_cluster f) buffer (file_size f) s)"

text \<open>A whole sector is written straight from the caller's buffer; a last part of one is merged into the sector.\<close>

definition write_sector ::
  "io_env \<Rightarrow> ptr \<Rightarrow> u32 \<Rightarrow> ptr \<Rightarrow> u32 \<Rightarrow> 'a fat_state_scheme \<Rightarrow> bool \<times> 'a fat_state_scheme" where
  "write_sector env buf lba buffer n s =
     (if n = bps s then disk_write env lba buffer 1 s
      else let (ok, s) = disk_read env lba buf 1 s
           in if \<not> ok then (False, s)
              else disk_write env lba buf 1 (s\<lparr>mem := memcpy buf buffer (ucast n) (mem s)\<rparr>))"

lemma write_sector_frame: "write_sector env buf lba buffer n s = (ok, t) \<Longrightarrow> io_frame s t"
  by (auto simp: write_sector_def io_frame_def split: prod.splits if_splits dest!: disk_frame)

function write_sector_loop ::
  "io_env \<Rightarrow> ptr \<Rightarrow> u32 \<Rightarrow> u8 \<Rightarrow> ptr \<Rightarrow> u32 \<Rightarrow> 'a fat_state_scheme \<Rightarrow>
     (bool \<times> ptr \<times> u32 \<times> 'a fat_state_scheme)" where
  "write_sector_loop env buf cluster sec buffer bytes_left s =
     (if sec < sectors_per_cluster (bpb s) \<and> bytes_left \<noteq> 0
      then let lba = cluster_to_lba cluster s
           in if lba = 0 then (False, buffer, bytes_left, s)
              else let n = (if bytes_left > bps s then bps s else bytes_left);
                       (ok, s) = write_sector env buf (lba + ucast sec) buffer n s
                   in if \<not> ok then (False, buffer, bytes_left, s)
                      else write_sector_loop env buf cluster (sec + 1) (buffer + ucast n) (bytes_left - n) s
      else (True, buffer, bytes_left, s))"
  by pat_completeness auto
termination
proof (relation "measure (\<lambda>(env, buf, cluster, sec, buffer, bytes_left, s).
      unat (sectors_per_cluster (bpb s)) - unat sec)", rule wf_measure, goal_cases)
  case (1 env buf cluster sec buffer bytes_left s lba n xa ok y)
  have "bpb y = bpb s" using bpb_kept [OF write_sector_frame] 1(5,6) by metis
  then show ?case using inc_measure [of sec "sectors_per_cluster (bpb s)"] 1(1) by simp
qed

declare write_sector_loop.simps [simp del]

function write_cluster_loop ::
  "io_env \<Rightarrow> fat_locals \<Rightarrow> u32 \<Rightarrow> u32 \<Rightarrow> u32 \<Rightarrow> ptr \<Rightarrow> u32 \<Rightarrow> 'a fat_state_scheme \<Rightarrow> (bool \<times> 'a fat_state_scheme) option" where
  "write_cluster_loop env loc max_c c cluster buffer bytes_left s =
     (if c < max_c \<and> bytes_left \<noteq> 0
      then let (ok, buffer, bytes_left, s) = write_sector_loop env (write_buf loc) cluster 0 buffer bytes_left s
           in if \<not> ok then Some (False, s)
              else do {
                (next, s) \<leftarrow> fat_get_next_cluster env loc cluster s;
                if next < 2 \<or> next \<ge> 0x0FFFFFF8 then Some (bytes_left = 0, s)
                else write_cluster_loop env loc max_c (c + 1) next buffer bytes_left s
              }
      else Some (bytes_left = 0, s))"
  by pat_completeness auto
termination
  by (relation "measure (\<lambda>(env, loc, max_c, c, cluster, buffer, bytes_left, s). unat max_c - unat c)")
    (auto intro: inc_measure)

declare write_cluster_loop.simps [simp del]

definition fat32_write_file ::
  "io_env \<Rightarrow> fat_locals \<Rightarrow> FAT32_FILE option \<Rightarrow> ptr \<Rightarrow> 'a fat_state_scheme \<Rightarrow> (bool \<times> 'a fat_state_scheme) option" where
  "fat32_write_file env loc file buffer s =
     (case file of
        None \<Rightarrow> Some (False, s)
      | Some f \<Rightarrow>
          if buffer = NULL then Some (False, s)
          else write_cluster_loop env loc (max_clusters s) 0 (first_cluster f) buffer (file_size f) s)"


subsection \<open>Listing the root directory\<close>

definition byte_char :: "u8 \<Rightarrow> char" where
  "byte_char b = char_of (unat b)"

text \<open>Printing a zero-terminated string out of memory.\<close>

partial_function (option) serial_write_cstr :: "ptr \<Rightarrow> 'a machine_scheme \<Rightarrow> 'a machine_scheme option" where
  "serial_write_cstr p s =
     (if mem s p = 0 then Some s
      else serial_write_cstr (p + 1) (serial_write_string [byte_char (mem s p)] s))"

text \<open>The characters of one part of a long name entry, up to the first 0 or 0xFFFF.\<close>

primrec lfn_copy :: "nat \<Rightarrow> ptr \<Rightarrow> ptr \<Rightarrow> u32 \<Rightarrow> u32 \<Rightarrow> memory \<Rightarrow> u32 \<times> memory" where
  "lfn_copy 0 src dst pos k m = (k, m)"
| "lfn_copy (Suc n) src dst pos k m =
     (let c = load16 m src
      in if c = 0 \<or> c = 0xFFFF then (k, m)
         else lfn_copy n (src + 2) dst pos (k + 1) (m(dst + ucast (pos + k) := ucast c)))"

text \<open>A short name without its trailing blanks.\<close>

primrec trim_name :: "nat \<Rightarrow> u8 list \<Rightarrow> u8 list" where
  "trim_name 0 name = name"
| "trim_name (Suc j) name = (if name ! j = 0x20 then trim_name j (name[j := 0]) else name)"

function list_entry_loop ::
  "ptr \<Rightarrow> ptr \<Rightarrow> u16 \<Rightarrow> u32 \<Rightarrow> u32 \<Rightarrow> 'a fat_state_scheme \<Rightarrow> (bool \<times> u32 \<times> 'a fat_state_scheme) option" where
  "list_entry_loop lfn buf n i lfn_count s =
     (if i < ucast n
      then let e = buf + ucast i
           in if mem s e = 0 then Some (True, lfn_count, s)
              else if mem s e = 0xE5 then list_entry_loop lfn buf n (i + 32) 0 s
              else let attr = mem s (e + 11)
                   in if attr = 0x0F
                      then let order = mem s e AND 0x3F;
                               pos = (ucast order - 1) * 13;
                               (k, m) = lfn_copy 5 (e + 1) lfn pos 0 (mem s);
                               (k, m) = lfn_copy 6 (e + 14) lfn pos k m;
                               (k, m) = lfn_copy 2 (e + 28) lfn pos k m;
                               lfn_count = (if ucast order > lfn_count then ucast order else lfn_count)
                           in list_entry_loop lfn buf n (i + 32) lfn_count (s\<lparr>mem := m\<rparr>)
                      else if attr AND 0x08 \<noteq> 0 then list_entry_loop lfn buf n (i + 32) 0 s
                      else do {
                        s \<leftarrow> (if lfn_count \<noteq> 0
                              then serial_write_cstr lfn (s\<lparr>mem := (mem s)(lfn + ucast (lfn_count * 13) := 0)\<rparr>)
                              else let name = trim_name 11 (load_bytes (mem s) e 11 @ [0])
                                   in Some (serial_write_string (map byte_char (takeWhile (\<lambda>b. b \<noteq> 0) name)) s));
                        let s = serial_write_string [CHR 0x0A] s;
                            s = s\<lparr>mem := memset lfn 0 260 (mem s)\<rparr>
                        in list_entry_loop lfn buf n (i + 32) 0 s
                      }
      else Some (False, lfn_count, s))"
  by pat_completeness auto
termination
  by (relation "measure (\<lambda>(lfn, buf, n, i, lfn_count, s). unat n - unat i)") (auto intro: entry_measure)

declare list_entry_loop.simps [simp del]

partial_function (option) list_sector_loop ::
  "io_env \<Rightarrow> fat_locals \<Rightarrow> u32 \<Rightarrow> u8 \<Rightarrow> u32 \<Rightarrow> 'a fat_state_scheme \<Rightarrow> (bool \<times> u32 \<times> 'a fat_state_scheme) option" where
  "list_sector_loop env loc cluster sec lfn_count s =
     (if sec < sectors_per_cluster (bpb s)
      then let lba = cluster_to_lba cluster s
           in if lba = 0 then Some (True, lfn_count, s)
              else let (ok, s) = disk_read env (lba + ucast sec) (list_buf loc) 1 s
                   in if \<not> ok then Some (True, lfn_count, s)
                      else do {
                        (stop, lfn_count, s) \<leftarrow>
                          list_entry_loop (lfn_stack loc) (list_buf loc) (bytes_per_sector (bpb s)) 0 lfn_count s;
                        if stop then Some (True, lfn_count, s)
                        else list_sector_loop env loc cluster (sec + 1) lfn_count s
                      }
      else Some (False, lfn_count, s))"

function list_cluster_loop ::
  "io_env \<Rightarrow> fat_locals \<Rightarrow> u32 \<Rightarrow> u32 \<Rightarrow> u32 \<Rightarrow> u32 \<Rightarrow> 'a fat_state_scheme \<Rightarrow> 'a fat_state_scheme option" where
  "list_cluster_loop env loc max_c c cluster lfn_count s =
     (if c < max_c
      then do {
        (stop, lfn_count, s) \<leftarrow> list_sector_loop env loc cluster 0 lfn_count s;
        if stop then Some s
        else do {
          (next, s) \<leftarrow> fat_get_next_cluster env loc cluster s;
          if next < 2 \<or> next \<ge> 0x0FFFFFF8 then Some s
          else list_cluster_loop env loc max_c (c + 1) next lfn_count s
        }
      }
      else Some s)"
  by pat_completeness auto
termination
  by (relation "measure (\<lambda>(env, loc, max_c, c, cluster, lfn_count, s). unat max_c - unat c)")
    (auto intro: inc_measure)

declare list_cluster_loop.simps [simp del]

definition fat32_list_root_files :: "io_env \<Rightarrow> fat_locals \<Rightarrow> 'a fat_state_scheme \<Rightarrow> 'a fat_state_scheme option" where
  "fat32_list_root_files env loc s =
     (let s = s\<lparr>mem := memset (lfn_stack loc) 0 260 (mem s)\<rparr>
      in list_cluster_loop env loc (max_clusters s) 0 (root_cluster (bpb s)) 0 s)"

end
