(* ===== verification/FAT32_Volume.thy ===== *)
theory FAT32_Volume
  imports FAT32
begin

text \<open>
  A FAT32 volume as its sectors describe it: where the clusters lie, how the FAT chains them,
  and which bytes a chain of clusters holds. The lemmas show that the operations on one
  cluster read and follow exactly this.
\<close>

abbreviation rsv :: "FAT32_BPB \<Rightarrow> nat" where "rsv b \<equiv> unat (reserved_sectors b)"
abbreviation fsz :: "FAT32_BPB \<Rightarrow> nat" where "fsz b \<equiv> unat (fat_size_sectors b)"
abbreviation csz :: "FAT32_BPB \<Rightarrow> nat" where "csz b \<equiv> unat (sectors_per_cluster b)"

definition data_start :: "FAT32_BPB \<Rightarrow> nat" where
  "data_start b = rsv b + unat (num_fats b) * fsz b"

text \<open>The volume has sectors of 512 bytes, and FATs and data lie within the partition of \<open>cap\<close> sectors.\<close>

definition volume_ok :: "FAT32_BPB \<Rightarrow> nat \<Rightarrow> bool" where
  "volume_ok b cap \<longleftrightarrow> bytes_per_sector b = 512 \<and> sectors_per_cluster b \<noteq> 0 \<and> num_fats b \<noteq> 0 \<and>
     data_start b \<le> cap \<and> cap < 268435456"

definition cluster_ok :: "FAT32_BPB \<Rightarrow> nat \<Rightarrow> u32 \<Rightarrow> bool" where
  "cluster_ok b cap c \<longleftrightarrow> 2 \<le> c \<and> c < 0x0FFFFFF8 \<and> unat c * 4 div 512 < fsz b \<and>
     data_start b + (unat c - 2) * csz b + csz b \<le> cap"

definition cluster_lba :: "FAT32_BPB \<Rightarrow> u32 \<Rightarrow> nat" where
  "cluster_lba b c = data_start b + (unat c - 2) * csz b"

definition fat_sector :: "FAT32_BPB \<Rightarrow> u32 \<Rightarrow> u32" where
  "fat_sector b c = of_nat (rsv b + unat c * 4 div 512)"

definition fat_next :: "disk \<Rightarrow> FAT32_BPB \<Rightarrow> u32 \<Rightarrow> u32" where
  "fat_next p b c = le_decode (take 4 (drop (unat c * 4 mod 512) (p (fat_sector b c)))) AND 0x0FFFFFFF"

definition cluster_bytes :: "disk \<Rightarrow> FAT32_BPB \<Rightarrow> u32 \<Rightarrow> u8 list" where
  "cluster_bytes p b c = sectors_from p (of_nat (cluster_lba b c)) (csz b)"

definition chain_bytes :: "disk \<Rightarrow> FAT32_BPB \<Rightarrow> u32 list \<Rightarrow> u8 list" where
  "chain_bytes p b cs = concat (map (cluster_bytes p b) cs)"

text \<open>A chain of clusters as the FAT links them.\<close>

definition fat_chain :: "disk \<Rightarrow> FAT32_BPB \<Rightarrow> nat \<Rightarrow> u32 list \<Rightarrow> bool" where
  "fat_chain p b cap cs \<longleftrightarrow> (\<forall>c \<in> set cs. cluster_ok b cap c) \<and> successively (\<lambda>c d. fat_next p b c = d) cs"

lemma csz_pos: "volume_ok b cap \<Longrightarrow> 0 < csz b"
  by (auto simp: volume_ok_def unat_gt_0)

lemma csz_bound: "csz b < 256"
  using unsigned_less [of "sectors_per_cluster b"] by simp

lemma unat_mult_noof:
  fixes a b :: "'a::len word"
  assumes "unat a * unat b < 2 ^ LENGTH('a)"
  shows "unat (a * b) = unat a * unat b"
  using assms by (simp add: unat_word_ariths)

lemma data_start_lba:
  assumes "volume_ok (bpb s) cap"
  shows "unat (data_start_lba s) = data_start (bpb s)"
proof -
  have c: "data_start (bpb s) < 268435456" using assms by (simp add: volume_ok_def)
  then have m: "unat (num_fats (bpb s)) * fsz (bpb s) < 2 ^ LENGTH(32)" by (simp add: data_start_def)
  then have "unat (ucast (num_fats (bpb s)) * fat_size_sectors (bpb s) :: u32) = unat (num_fats (bpb s)) * fsz (bpb s)"
    by (subst unat_mult_noof) simp_all
  then show ?thesis
    unfolding data_start_lba_def using c by (subst unat_add_noof) (simp_all add: data_start_def)
qed

lemma cluster_to_lba_ok:
  assumes "volume_ok (bpb s) cap" "cluster_ok (bpb s) cap c"
  shows "cluster_to_lba c s = of_nat (cluster_lba (bpb s) c)" "cluster_to_lba c s \<noteq> 0"
    "unat (cluster_to_lba c s) = cluster_lba (bpb s) c" "cluster_lba (bpb s) c + csz (bpb s) \<le> cap"
proof -
  let ?b = "bpb s"
  have cap: "cap < 268435456" using assms(1) by (simp add: volume_ok_def)
  have c2: "\<not> c < 2" "2 \<le> unat c" using assms(2) by (auto simp: cluster_ok_def word_le_nat_alt word_less_nat_alt)
  show le: "cluster_lba ?b c + csz ?b \<le> cap" using assms(2) by (simp add: cluster_ok_def cluster_lba_def)
  have d: "unat (c - 2) = unat c - 2" using c2(2) by (subst unat_diff_noof) simp_all
  have m: "unat ((c - 2) * ucast (sectors_per_cluster ?b)) = (unat c - 2) * csz ?b"
    using le cap by (subst unat_mult_noof) (simp_all add: d cluster_lba_def)
  have u: "unat (cluster_to_lba c s) = cluster_lba ?b c"
    using c2(1) le cap data_start_lba [OF assms(1)]
    by (simp add: cluster_to_lba_def unat_add_noof m cluster_lba_def)
  then show "unat (cluster_to_lba c s) = cluster_lba ?b c" .
  have "of_nat (unat (cluster_to_lba c s)) = cluster_to_lba c s" by simp
  then show "cluster_to_lba c s = of_nat (cluster_lba ?b c)" by (simp only: u)
  have "0 < fsz ?b" using assms(2) by (simp add: cluster_ok_def)
  moreover have "0 < unat (num_fats ?b)" using assms(1) by (simp add: volume_ok_def unat_gt_0)
  ultimately have "0 < data_start ?b" by (simp add: data_start_def)
  then have "0 < cluster_lba ?b c" by (simp add: cluster_lba_def)
  then show "cluster_to_lba c s \<noteq> 0" using u by auto
qed


lemma io_frame_trans: "io_frame s t \<Longrightarrow> io_frame t u \<Longrightarrow> io_frame s u"
  by (simp add: io_frame_def)

lemma io_frame_upd [simp]:
  "io_frame s (t\<lparr>mem := m\<rparr>) \<longleftrightarrow> io_frame s t" "io_frame s (t\<lparr>io_log := l\<rparr>) \<longleftrightarrow> io_frame s t"
  "io_frame s (t\<lparr>serial_out := out\<rparr>) \<longleftrightarrow> io_frame s t" "io_frame s s"
  by (simp_all add: io_frame_def)

lemma four_bytes:
  "ucast (a :: u8) OR push_bit 8 (ucast (b :: u8)) OR push_bit 16 (ucast (c :: u8)) OR push_bit 24 (ucast (d :: u8)) =
   (le_decode [a, b, c, d] :: u32)"
  by (rule bit_word_eqI) (auto simp: bit_simps)

text \<open>Following the FAT.\<close>

lemma fat_offset:
  assumes "volume_ok b cap" "cluster_ok b cap c"
  shows "unat (c * 4) = unat c * 4" "unat (c * 4 div 512) = unat c * 4 div 512"
    "unat (c * 4 mod 512) = unat c * 4 mod 512" "unat c * 4 mod 512 \<le> 508"
    "ucast (reserved_sectors b) + c * 4 div 512 = fat_sector b c" "rsv b + unat c * 4 div 512 < data_start b"
    "unat (fat_sector b c) = rsv b + unat c * 4 div 512"
proof -
  have "unat c < 268435448" using assms(2) by (auto simp: cluster_ok_def word_less_nat_alt)
  then show 1: "unat (c * 4) = unat c * 4" by (subst unat_mult_noof) simp_all
  show 2: "unat (c * 4 div 512) = unat c * 4 div 512" by (simp add: unat_div_distrib 1)
  show "unat (c * 4 mod 512) = unat c * 4 mod 512" by (simp add: unat_mod_distrib 1)
  have "unat c * 4 mod 512 = 4 * (unat c mod 128)" using mult_mod_right [of 4 "unat c" 128] by (simp add: mult.commute)
  moreover have "unat c mod 128 < 128" by simp
  ultimately show "unat c * 4 mod 512 \<le> 508" by linarith
  have "1 * fsz b \<le> unat (num_fats b) * fsz b"
    using assms(1) by (intro mult_le_mono1) (simp add: volume_ok_def Suc_le_eq unat_gt_0)
  moreover have "unat c * 4 div 512 < fsz b" using assms(2) unfolding cluster_ok_def by blast
  ultimately show 3: "rsv b + unat c * 4 div 512 < data_start b"
    unfolding data_start_def by linarith
  have lt: "rsv b + unat c * 4 div 512 < 4294967296" using 3 assms(1) by (simp add: volume_ok_def)
  have "unat (ucast (reserved_sectors b) + c * 4 div 512) = rsv b + unat c * 4 div 512"
    using lt by (subst unat_add_noof) (simp_all add: 2)
  moreover show "unat (fat_sector b c) = rsv b + unat c * 4 div 512"
    using lt unat_add_of_nat [of "0 :: u32" "rsv b + unat c * 4 div 512"] by (simp add: fat_sector_def)
  ultimately show "ucast (reserved_sectors b) + c * 4 div 512 = fat_sector b c"
    by (metis unsigned_word_eqI)
qed

lemma fat_get_next_cluster_ok:
  fixes s :: "'a fat_state_scheme"
  assumes ok: "disk_ok env cap s p" and vol: "volume_ok (bpb s) cap" and cl: "cluster_ok (bpb s) cap c"
  shows "\<exists>s'. fat_get_next_cluster env loc c s = Some (fat_next p (bpb s) c, s') \<and> io_frame s s' \<and>
    disk_ok env cap s' p \<and> (\<forall>x. x \<notin> span (next_buf loc) 512 \<longrightarrow> mem s' x = mem s x) \<and>
    serial_out s' = serial_out s"
proof -
  let ?b = "bpb s" and ?buf = "next_buf loc"
  note off = fat_offset [OF vol cl]
  have bps: "bps s = 512" using vol by (simp add: volume_ok_def)
  have range: "\<not> (c < 2 \<or> c \<ge> 0x0FFFFFF8)" using cl by (auto simp: cluster_ok_def)
  have sec: "fat_start_lba s + c * 4 div 512 = fat_sector ?b c" using off(5) by (simp add: fat_start_lba_def)
  have lt: "unat (fat_sector ?b c) + unat (1 :: u32) \<le> cap" using off(6,7) vol by (simp add: volume_ok_def)
  obtain l where l: "disk_read env (fat_sector ?b c) ?buf 1 s =
      (True, s\<lparr>mem := store_bytes ?buf (p (fat_sector ?b c)) (mem s), io_log := l\<rparr>)"
    "disk_ok env cap (s\<lparr>mem := store_bytes ?buf (p (fat_sector ?b c)) (mem s), io_log := l\<rparr>) p"
    using disk_read_law [OF ok _ lt, of ?buf] by (auto simp: sectors_from_def)
  let ?s = "s\<lparr>mem := store_bytes ?buf (p (fat_sector ?b c)) (mem s), io_log := l\<rparr>"
  have len: "length (p (fat_sector ?b c)) = 512" using ata.sector_size [OF ok] lt by simp
  let ?o = "c * 4 mod 512"
  have o: "unat ?o = unat c * 4 mod 512" "unat ?o \<le> 508" using off(3,4) by simp_all
  have byte: "mem ?s (?buf + ucast (?o + of_nat k)) = p (fat_sector ?b c) ! (unat ?o + k)" if "k < 4" for k
    using that o(2) len unat_add_of_nat [of ?o k] by (simp add: store_bytes_apply)
  have "\<not> ?o + 4 > 512" using o(2) unat_add_of_nat [of ?o 4] by (simp add: word_less_nat_alt)
  then have "fat_get_next_cluster env loc c s = Some (le_decode [p (fat_sector ?b c) ! unat ?o,
      p (fat_sector ?b c) ! (unat ?o + 1), p (fat_sector ?b c) ! (unat ?o + 2),
      p (fat_sector ?b c) ! (unat ?o + 3)] AND 0x0FFFFFFF, ?s)"
    using range byte [of 0] byte [of 1] byte [of 2] byte [of 3]
    by (simp add: fat_get_next_cluster_def bps sec l(1) Let_def four_bytes del: le_decode.simps)
  moreover have "take 4 (drop (unat ?o) (p (fat_sector ?b c))) = [p (fat_sector ?b c) ! unat ?o,
      p (fat_sector ?b c) ! (unat ?o + 1), p (fat_sector ?b c) ! (unat ?o + 2), p (fat_sector ?b c) ! (unat ?o + 3)]"
    using o(2) len by (intro nth_equalityI) (auto simp: less_Suc_eq numeral_eq_Suc)
  ultimately show ?thesis
    using l(2) len o(1) by (intro exI [of _ ?s]) (simp add: fat_next_def store_bytes_other del: le_decode.simps)
qed

end
