(* ===== verification/FAT32_Files.thy ===== *)
theory FAT32_Files
  imports FAT32_Volume
begin

text \<open>
  Reading and writing files: the loops over the cluster chain of a file transfer exactly the
  bytes of its clusters. The caller's buffer must lie apart from the buffers on the stack.
\<close>

subsection \<open>Reading\<close>

lemma length_cluster_bytes:
  assumes "disk_ok env cap s p" "cluster_lba b c + csz b \<le> cap"
  shows "length (cluster_bytes p b c) = 512 * csz b"
proof -
  have "cap < 4294967296" using ata.small [OF assms(1)] .
  then have "unat (of_nat (cluster_lba b c) :: u32) = cluster_lba b c"
    using assms(2) unat_add_of_nat [of "0 :: u32" "cluster_lba b c"] by simp
  then show ?thesis
    unfolding cluster_bytes_def using ata.length_sectors [OF assms(1)] assms(2) by simp
qed

definition off_stack :: "fat_locals \<Rightarrow> FAT32_BPB \<Rightarrow> ptr set \<Rightarrow> bool" where
  "off_stack loc b A \<longleftrightarrow> A \<inter> span (read_buf loc) (512 * csz b) = {} \<and> A \<inter> span (next_buf loc) 512 = {} \<and>
     A \<inter> span (write_buf loc) 512 = {}"

definition stack_bytes :: "fat_locals \<Rightarrow> FAT32_BPB \<Rightarrow> ptr set" where
  "stack_bytes loc b = span (read_buf loc) (512 * csz b) \<union> span (next_buf loc) 512 \<union> span (write_buf loc) 512"

lemma off_stack_iff: "off_stack loc b A \<longleftrightarrow> A \<inter> stack_bytes loc b = {}"
  by (auto simp: off_stack_def stack_bytes_def)

lemma off_stack_mono: "off_stack loc b A \<Longrightarrow> B \<subseteq> A \<Longrightarrow> off_stack loc b B"
  by (auto simp: off_stack_def)

lemma read_cluster_step:
  fixes s :: "'a fat_state_scheme"
  assumes ok: "disk_ok env cap s p" and vol: "volume_ok (bpb s) cap" and cl: "cluster_ok (bpb s) cap c"
    and left: "left \<noteq> 0" and n: "n = (if left > clsz then clsz else left)" and clsz: "unat clsz = 512 * csz (bpb s)"
    and off: "off_stack loc (bpb s) (span buffer (unat n))"
  obtains s' where
    "read_file_loop env loc clsz c buffer left s =
      (if fat_next p (bpb s) c < 2 \<or> fat_next p (bpb s) c \<ge> 0x0FFFFFF8 then Some (left - n = 0, s')
       else read_file_loop env loc clsz (fat_next p (bpb s) c) (buffer + ucast n) (left - n) s')"
    "io_frame s s'" "disk_ok env cap s' p" "serial_out s' = serial_out s"
    "load_bytes (mem s') buffer (unat n) = take (unat n) (cluster_bytes p (bpb s) c)"
    "\<And>x. x \<notin> span buffer (unat n) \<Longrightarrow> x \<notin> stack_bytes loc (bpb s) \<Longrightarrow> mem s' x = mem s x"
proof -
  let ?b = "bpb s" and ?buf = "read_buf loc" and ?bs = "cluster_bytes p (bpb s) c"
  note lba = cluster_to_lba_ok [OF vol cl]
  have len: "length ?bs = 512 * csz ?b" using length_cluster_bytes [OF ok lba(4)] .
  have nle: "unat n \<le> 512 * csz ?b" using n clsz by (auto simp: word_less_nat_alt split: if_splits)
  have "sectors_per_cluster ?b \<noteq> 0" using vol by (simp add: volume_ok_def)
  then have nz: "spc s \<noteq> 0" by (metis unat_eq_0 unat_ucast_bytes(2))
  have fit: "unat (cluster_to_lba c s) + unat (spc s) \<le> cap" using lba(3,4) by simp
  obtain l where l: "disk_read env (cluster_to_lba c s) ?buf (spc s) s = (True, s\<lparr>mem := store_bytes ?buf ?bs (mem s), io_log := l\<rparr>)"
    "disk_ok env cap (s\<lparr>mem := store_bytes ?buf ?bs (mem s), io_log := l\<rparr>) p"
    using disk_read_law [OF ok nz fit, of ?buf] by (auto simp: cluster_bytes_def lba(1))
  let ?m = "memcpy buffer ?buf (ucast n) (store_bytes ?buf ?bs (mem s))"
  let ?s2 = "s\<lparr>io_log := l, mem := ?m\<rparr>"
  have b2: "bpb ?s2 = ?b" by simp
  have ok2: "disk_ok env cap ?s2 p" using l(2) by (simp add: disk_ok_def)
  obtain s' where s': "fat_get_next_cluster env loc c ?s2 = Some (fat_next p ?b c, s')" "io_frame ?s2 s'"
    "disk_ok env cap s' p" "\<forall>x. x \<notin> span (next_buf loc) 512 \<longrightarrow> mem s' x = ?m x" "serial_out s' = serial_out s"
    using fat_get_next_cluster_ok [OF ok2, of c loc] vol cl by auto
  have apart: "span buffer (unat (ucast n :: u64)) \<inter> span ?buf (unat (ucast n :: u64)) = {}"
    using off nle by (auto simp: off_stack_def span_def)
  have small: "length ?bs \<le> 18446744073709551616" using len csz_bound [of ?b] by simp
  have cp: "?m x = ?bs ! unat (x - buffer)" if "x \<in> span buffer (unat n)" for x
    using that nle len memcpy_apply [OF apart] small by (simp add: span_def store_bytes_apply)
  have dst: "mem s' x = ?bs ! unat (x - buffer)" if "x \<in> span buffer (unat n)" for x
    using that cp [OF that] s'(4) off by (auto simp: off_stack_def)
  show thesis
  proof (rule that)
    show "read_file_loop env loc clsz c buffer left s =
      (if fat_next p ?b c < 2 \<or> fat_next p ?b c \<ge> 0x0FFFFFF8 then Some (left - n = 0, s')
       else read_file_loop env loc clsz (fat_next p ?b c) (buffer + ucast n) (left - n) s')"
      using left lba(2) l(1) s'(1) by (subst read_file_loop.simps) (simp add: Let_def n [symmetric])
    show "io_frame s s'" using s'(2) by (simp add: io_frame_def)
    show "disk_ok env cap s' p" by (rule s'(3))
    show "serial_out s' = serial_out s" by (rule s'(5))
    show "load_bytes (mem s') buffer (unat n) = take (unat n) ?bs"
      using dst nle len unat_lt_u32 [of n]
      by (intro nth_equalityI) (auto simp: nth_load_bytes unat_of_nat_u64)
    show "mem s' x = mem s x" if "x \<notin> span buffer (unat n)" "x \<notin> stack_bytes loc ?b" for x
      using that s'(4) memcpy_outside [of x buffer "ucast n"] store_bytes_other [OF small] len
      by (simp add: stack_bytes_def)
  qed
qed


lemma range_of_cluster: "cluster_ok b cap c \<Longrightarrow> \<not> (c < 2 \<or> c \<ge> 0x0FFFFFF8)"
  by (auto simp: cluster_ok_def)

lemma read_file_loop_done: "read_file_loop env loc clsz c buffer 0 s = Some (True, s)"
  by (subst read_file_loop.simps) simp

lemma fat_chain_Cons:
  "fat_chain p b cap (c # d # cs) \<longleftrightarrow> cluster_ok b cap c \<and> fat_next p b c = d \<and> fat_chain p b cap (d # cs)"
  by (auto simp: fat_chain_def)

lemma span_split:
  assumes "k \<le> n" "n \<le> 18446744073709551616"
  shows "span a k \<subseteq> span a n" "span (a + of_nat k) (n - k) \<subseteq> span a n"
proof -
  show "span a k \<subseteq> span a n" using assms(1) by (auto simp: span_def)
  show "span (a + of_nat k) (n - k) \<subseteq> span a n"
  proof (cases "k = 18446744073709551616")
    case True
    then show ?thesis using assms by (simp add: span_def)
  next
    case False
    then have "unat (of_nat k :: u64) = k" using assms by (intro unat_of_nat_u64) simp
    then show ?thesis using assms span_sub [of "of_nat k" "n - k" n a] by simp
  qed
qed

lemma read_file_loop_ok:
  fixes s :: "'a fat_state_scheme"
  assumes "disk_ok env cap s p" "volume_ok (bpb s) cap" "fat_chain p (bpb s) cap (c # cs)"
    and "unat clsz = 512 * csz (bpb s)" "length cs * unat clsz < unat left" "unat left \<le> Suc (length cs) * unat clsz"
    and "off_stack loc (bpb s) (span buffer (unat left))"
  shows "\<exists>s'. read_file_loop env loc clsz c buffer left s = Some (True, s') \<and> io_frame s s' \<and> disk_ok env cap s' p \<and>
    serial_out s' = serial_out s \<and>
    load_bytes (mem s') buffer (unat left) = take (unat left) (chain_bytes p (bpb s) (c # cs)) \<and>
    (\<forall>x. x \<notin> span buffer (unat left) \<longrightarrow> x \<notin> stack_bytes loc (bpb s) \<longrightarrow> mem s' x = mem s x)"
  using assms
proof (induction cs arbitrary: c buffer left s)
  case Nil
  have left: "left \<noteq> 0" using Nil(5) by auto
  have le: "\<not> left > clsz" using Nil(6) by (simp add: word_less_nat_alt)
  have cl: "cluster_ok (bpb s) cap c" using Nil(3) by (simp add: fat_chain_def)
  have off: "off_stack loc (bpb s) (span buffer (unat (if left > clsz then clsz else left)))"
    using Nil(7) le by simp
  obtain s' where s': "read_file_loop env loc clsz c buffer left s =
      (if fat_next p (bpb s) c < 2 \<or> fat_next p (bpb s) c \<ge> 0x0FFFFFF8 then Some (left - left = 0, s')
       else read_file_loop env loc clsz (fat_next p (bpb s) c) (buffer + ucast left) (left - left) s')"
    "io_frame s s'" "disk_ok env cap s' p" "serial_out s' = serial_out s"
    "load_bytes (mem s') buffer (unat left) = take (unat left) (cluster_bytes p (bpb s) c)"
    "\<And>x. x \<notin> span buffer (unat left) \<Longrightarrow> x \<notin> stack_bytes loc (bpb s) \<Longrightarrow> mem s' x = mem s x"
    using read_cluster_step [OF Nil(1,2) cl left refl Nil(4) off] le by (simp only: if_False) blast
  then show ?case
    by (intro exI [of _ s']) (simp add: read_file_loop_done chain_bytes_def)
next
  case (Cons d cs)
  let ?b = "bpb s" and ?n = "unat clsz"
  have len: "Suc (length cs) * ?n < unat left" using Cons(6) by simp
  then have gt: "left > clsz" by (simp add: word_less_nat_alt)
  then have left: "left \<noteq> 0" by auto
  have cl: "cluster_ok ?b cap c" "fat_next p ?b c = d" "fat_chain p ?b cap (d # cs)"
    using Cons(4) by (simp_all add: fat_chain_Cons)
  have big: "unat left \<le> 18446744073709551616" "?n \<le> unat left" using unat_lt_u32 [of left] len by auto
  have off: "off_stack loc ?b (span buffer ?n)"
    using Cons(8) span_split(1) [OF big(2,1)] by (rule off_stack_mono)
  then have off': "off_stack loc ?b (span buffer (unat (if left > clsz then clsz else left)))" using gt by simp
  obtain s1 where s1: "read_file_loop env loc clsz c buffer left s =
      (if d < 2 \<or> d \<ge> 0x0FFFFFF8 then Some (left - clsz = 0, s1)
       else read_file_loop env loc clsz d (buffer + ucast clsz) (left - clsz) s1)"
    "io_frame s s1" "disk_ok env cap s1 p" "serial_out s1 = serial_out s"
    "load_bytes (mem s1) buffer ?n = take ?n (cluster_bytes p ?b c)"
    "\<And>x. x \<notin> span buffer ?n \<Longrightarrow> x \<notin> stack_bytes loc ?b \<Longrightarrow> mem s1 x = mem s x"
    using read_cluster_step [OF Cons(2,3) cl(1) left refl Cons(5) off', unfolded cl(2)] gt
    by (simp only: if_True) blast
  have b1: "bpb s1 = ?b" using bpb_kept [OF s1(2)] .
  have "\<not> (d < 2 \<or> d \<ge> 0x0FFFFFF8)" using cl(3) by (intro range_of_cluster [of ?b cap]) (simp add: fat_chain_def)
  then have run: "read_file_loop env loc clsz c buffer left s =
      read_file_loop env loc clsz d (buffer + ucast clsz) (left - clsz) s1" using s1(1) by simp
  let ?buf2 = "buffer + of_nat ?n"
  have ucl: "(ucast clsz :: u64) = of_nat ?n" by (simp add: unsigned_word_eqI unat_of_nat_u64)
  have ul: "unat (left - clsz) = unat left - ?n" using big(2) by (rule unat_diff_noof)
  have sub: "span ?buf2 (unat left - ?n) \<subseteq> span buffer (unat left)" using span_split(2) [OF big(2,1)] .
  have "off_stack loc (bpb s1) (span ?buf2 (unat (left - clsz)))"
    unfolding ul b1 using Cons(8) sub by (rule off_stack_mono)
  note off2 = this
  have "length cs * ?n < unat (left - clsz)" "unat (left - clsz) \<le> Suc (length cs) * ?n"
    using len Cons(7) big(2) by (simp_all add: ul)
  note IH = Cons(1) [OF s1(3) _ _ _ this off2, unfolded b1 ul, OF Cons(3) cl(3) Cons(5)]
  then obtain s2 where s2: "read_file_loop env loc clsz d ?buf2 (left - clsz) s1 = Some (True, s2)" "io_frame s1 s2"
    "disk_ok env cap s2 p" "serial_out s2 = serial_out s1"
    "load_bytes (mem s2) ?buf2 (unat left - ?n) = take (unat left - ?n) (chain_bytes p ?b (d # cs))"
    "\<And>x. x \<notin> span ?buf2 (unat left - ?n) \<Longrightarrow> x \<notin> stack_bytes loc ?b \<Longrightarrow> mem s2 x = mem s1 x"
    by blast
  have lb: "length (cluster_bytes p ?b c) = ?n"
    using length_cluster_bytes [OF Cons(2) cluster_to_lba_ok(4) [OF Cons(3) cl(1)]] Cons(5) by simp
  have "unat (of_nat ?n :: u64) = ?n" using unat_lt_u32 [of clsz] by (intro unat_of_nat_u64) simp
  then have "span buffer ?n \<inter> span ?buf2 (unat left - ?n) = {}"
    using big by (intro span_offset_disjoint) simp_all
  then have "mem s2 x = mem s1 x" if "x \<in> span buffer ?n" for x
    using that s2(6) off by (auto simp: off_stack_iff)
  then have first: "load_bytes (mem s2) buffer ?n = cluster_bytes p ?b c"
    using s1(5) lb load_bytes_cong [of buffer ?n "mem s2" "mem s1"] big by simp
  have "load_bytes (mem s2) buffer (unat left) = load_bytes (mem s2) buffer ?n @ load_bytes (mem s2) ?buf2 (unat left - ?n)"
    using big(2) by (simp only: load_bytes_append [symmetric] le_add_diff_inverse)
  also have "\<dots> = cluster_bytes p ?b c @ take (unat left - ?n) (chain_bytes p ?b (d # cs))"
    by (simp only: first s2(5))
  also have "\<dots> = take (unat left) (chain_bytes p ?b (c # d # cs))"
    using lb big(2) unfolding chain_bytes_def by (simp only: list.map concat.simps take_append take_all)
  finally have "load_bytes (mem s2) buffer (unat left) = take (unat left) (chain_bytes p ?b (c # d # cs))" .
  moreover have "mem s2 x = mem s x" if "x \<notin> span buffer (unat left)" "x \<notin> stack_bytes loc ?b" for x
  proof -
    have "x \<notin> span buffer ?n" "x \<notin> span ?buf2 (unat left - ?n)"
      using that(1) sub span_split(1) [OF big(2,1)] by blast+
    then show ?thesis using s1(6) [of x] s2(6) [of x] that(2) by simp
  qed
  ultimately show ?case
    using run s2(1,3,4) s1(2,4) s2(2) unfolding ucl by (auto simp: io_frame_def)
qed

text \<open>The file \<open>f\<close> of the volume has the contents \<open>bs\<close>.\<close>

definition file_chain :: "disk \<Rightarrow> FAT32_BPB \<Rightarrow> nat \<Rightarrow> FAT32_FILE \<Rightarrow> u32 list \<Rightarrow> bool" where
  "file_chain p b cap f cs \<longleftrightarrow> cs \<noteq> [] \<and> hd cs = first_cluster f \<and> fat_chain p b cap cs \<and>
     (length cs - 1) * (512 * csz b) < unat (file_size f) \<and> unat (file_size f) \<le> length cs * (512 * csz b)"

definition file_holds :: "disk \<Rightarrow> FAT32_BPB \<Rightarrow> nat \<Rightarrow> FAT32_FILE \<Rightarrow> u8 list \<Rightarrow> bool" where
  "file_holds p b cap f bs \<longleftrightarrow> file_size f = 0 \<and> bs = [] \<or>
     (\<exists>cs. file_chain p b cap f cs \<and> bs = take (unat (file_size f)) (chain_bytes p b cs))"

lemma cluster_size: "volume_ok (bpb s) cap \<Longrightarrow> unat (spc s * bps s) = 512 * csz (bpb s)"
  using csz_bound [of "bpb s"] by (simp add: volume_ok_def unat_mult_noof)

lemma fat32_read_file_ok:
  fixes s :: "'a fat_state_scheme"
  assumes "disk_ok env cap s p" "volume_ok (bpb s) cap" "file_holds p (bpb s) cap f bs" "buffer \<noteq> NULL"
    and "off_stack loc (bpb s) (span buffer (unat (file_size f)))"
  shows "\<exists>s'. fat32_read_file env loc (Some f) buffer s = Some (True, s') \<and> io_frame s s' \<and> disk_ok env cap s' p \<and>
    serial_out s' = serial_out s \<and> load_bytes (mem s') buffer (unat (file_size f)) = bs \<and>
    (\<forall>x. x \<notin> span buffer (unat (file_size f)) \<longrightarrow> x \<notin> stack_bytes loc (bpb s) \<longrightarrow> mem s' x = mem s x)"
proof (cases "file_size f = 0")
  case True
  then have "bs = []" using assms(3) by (auto simp: file_holds_def)
  then show ?thesis using True assms(1,4) by (simp add: fat32_read_file_def read_file_loop_done)
next
  case False
  then obtain cs where cs: "file_chain p (bpb s) cap f cs" "bs = take (unat (file_size f)) (chain_bytes p (bpb s) cs)"
    using assms(3) by (auto simp: file_holds_def)
  then obtain c ds where c: "cs = c # ds" "c = first_cluster f" by (cases cs) (auto simp: file_chain_def)
  show ?thesis
    using read_file_loop_ok [OF assms(1,2) _ cluster_size [OF assms(2)] _ _ assms(5), of c ds] cs c assms(4)
    by (simp add: fat32_read_file_def file_chain_def cluster_size [OF assms(2)])
qed

text \<open>A file that no volume can hold: reading stops with false at a cluster number below 2.\<close>

lemma fat32_read_file_bad_cluster:
  assumes "file_size f \<noteq> 0" "first_cluster f < 2"
  shows "fat32_read_file env loc (Some f) buffer s = Some (False, s)"
  using assms by (simp add: fat32_read_file_def read_file_loop.simps cluster_to_lba_def)

end
