(* ===== verification/FAT32_Write.thy ===== *)
theory FAT32_Write
  imports FAT32_Files
begin

text \<open>
  Writing a file: the loops put the caller's bytes into the sectors of the file's clusters
  one after the other, merging a last partial sector, and touch neither the FATs nor the
  sectors of other files; reading the file afterwards gives the bytes back.
\<close>

subsection \<open>Sectors of a file\<close>

definition cluster_sectors :: "FAT32_BPB \<Rightarrow> u32 \<Rightarrow> u32 list" where
  "cluster_sectors b c = map (\<lambda>j. of_nat (cluster_lba b c + j)) [0..<csz b]"

definition chain_sectors :: "FAT32_BPB \<Rightarrow> u32 list \<Rightarrow> u32 list" where
  "chain_sectors b cs = concat (map (cluster_sectors b) cs)"

text \<open>The disk after the bytes \<open>bs\<close> have been put into the sectors \<open>as\<close>.\<close>

fun put_bytes :: "disk \<Rightarrow> u32 list \<Rightarrow> u8 list \<Rightarrow> disk" where
  "put_bytes p [] bs = p"
| "put_bytes p (a # as) bs =
     (if bs = [] then p
      else put_bytes (p(a := take 512 bs @ drop (length (take 512 bs)) (p a))) as (drop 512 bs))"

lemma put_bytes_Nil [simp]: "put_bytes p as [] = p"
  by (cases as) simp_all

lemma put_bytes_append:
  "put_bytes p (as @ as') bs = put_bytes (put_bytes p as (take (512 * length as) bs)) as' (drop (512 * length as) bs)"
proof (induction as arbitrary: p bs)
  case (Cons a as)
  have t: "take 512 (take (512 * length (a # as)) bs) = take 512 bs"
    "drop 512 (take (512 * length (a # as)) bs) = take (512 * length as) (drop 512 bs)"
    by (simp_all add: drop_take min_def)
  have d: "drop (512 * length (a # as)) bs = drop (512 * length as) (drop 512 bs)" by (simp add: add.commute)
  show ?case
  proof (cases "bs = []")
    case False
    then have "take (512 * length (a # as)) bs \<noteq> []" by simp
    then show ?thesis using False
      by (simp only: append_Cons put_bytes.simps if_False Cons t d)
  qed simp
qed simp

lemma put_bytes_other: "a \<notin> set as \<Longrightarrow> put_bytes p as bs a = p a"
  by (induction p as bs rule: put_bytes.induct) auto

lemma put_bytes_length:
  "\<forall>a \<in> set as. length (p a) = 512 \<Longrightarrow> length (p x) = 512 \<Longrightarrow> length (put_bytes p as bs x) = 512"
  by (induction p as bs arbitrary: x rule: put_bytes.induct) auto

text \<open>The bytes come back out of the sectors.\<close>

lemma get_put_bytes:
  assumes "distinct as" "\<forall>a \<in> set as. length (p a) = 512" "length bs \<le> 512 * length as"
  shows "take (length bs) (concat (map (put_bytes p as bs) as)) = bs"
  using assms
proof (induction p as bs rule: put_bytes.induct)
  case (2 p a as bs)
  show ?case
  proof (cases "bs = []")
    case False
    let ?p = "p(a := take 512 bs @ drop (length (take 512 bs)) (p a))"
    have a: "put_bytes ?p as (drop 512 bs) a = take 512 bs @ drop (length (take 512 bs)) (p a)"
      using 2(2) by (simp add: put_bytes_other)
    have IH: "take (length (drop 512 bs)) (concat (map (put_bytes ?p as (drop 512 bs)) as)) = drop 512 bs"
      using 2(2,3,4) False by (intro 2(1)) auto
    have len: "length (take 512 bs @ drop (length (take 512 bs)) (p a)) = 512" using 2(3) by simp
    show ?thesis
    proof (cases "length bs \<le> 512")
      case True
      then show ?thesis using False a by simp
    next
      case big: False
      then have "take (length bs) (concat (map (put_bytes p (a # as) bs) (a # as))) =
          take 512 bs @ take (length bs - 512) (concat (map (put_bytes ?p as (drop 512 bs)) as))"
        using False a 2(3) by simp
      also have "\<dots> = bs" using IH by simp
      finally show ?thesis .
    qed
  qed simp
qed simp

lemma chain_bytes_sectors: "chain_bytes p b cs = concat (map p (chain_sectors b cs))"
  by (induction cs) (simp_all add: chain_bytes_def chain_sectors_def cluster_bytes_def sectors_from_def
      cluster_sectors_def comp_def)


lemma unat_u32_small: "n < 268435456 \<Longrightarrow> unat (of_nat n :: u32) = n"
  using unat_add_of_nat [of "0 :: u32" n] by simp

lemma chain_sector_range:
  assumes "volume_ok b cap" "\<forall>c \<in> set cs. cluster_ok b cap c" "a \<in> set (chain_sectors b cs)"
  shows "data_start b \<le> unat a" "unat a < cap"
proof -
  obtain c j where cj: "c \<in> set cs" "j < csz b" "a = of_nat (cluster_lba b c + j)"
    using assms(3) by (auto simp: chain_sectors_def cluster_sectors_def)
  have "data_start b + (unat c - 2) * csz b + csz b \<le> cap" using assms(2) cj(1) by (auto simp: cluster_ok_def)
  then have lt: "cluster_lba b c + j < cap" using cj(2) by (simp add: cluster_lba_def)
  then have "unat a = cluster_lba b c + j" 
    using cj(3) assms(1) unat_u32_small [of "cluster_lba b c + j"] by (auto simp: volume_ok_def simp del: of_nat_add)
  then show "data_start b \<le> unat a" "unat a < cap" using lt by (simp_all add: cluster_lba_def)
qed

lemma distinct_chain_sectors:
  assumes "volume_ok b cap" "\<forall>c \<in> set cs. cluster_ok b cap c" "distinct cs"
  shows "distinct (chain_sectors b cs)"
proof -
  have lt: "cluster_lba b c + j < 268435456" if "c \<in> set cs" "j < csz b" for c j
  proof -
    have "data_start b + (unat c - 2) * csz b + csz b \<le> cap" using assms(2) that(1) by (auto simp: cluster_ok_def)
    then show ?thesis using that(2) assms(1) by (simp add: cluster_lba_def volume_ok_def)
  qed
  have eq: "c = d \<and> i = j"
    if "c \<in> set cs" "d \<in> set cs" "i < csz b" "j < csz b"
      "(of_nat (cluster_lba b c + i) :: u32) = of_nat (cluster_lba b d + j)" for c d i j
  proof -
    have "cluster_lba b c + i = cluster_lba b d + j"
      using that(5) unat_u32_small [OF lt [OF that(1,3)]] unat_u32_small [OF lt [OF that(2,4)]] by metis
    then have "(unat c - 2) * csz b + i = (unat d - 2) * csz b + j" by (simp add: cluster_lba_def)
    moreover have "(x * k + i) div k = x" "(x * k + i) mod k = i" if "i < k" for x k i :: nat
      using that by simp_all
    ultimately have "unat c - 2 = unat d - 2" "i = j" using that(3,4) by metis+
    moreover have "2 \<le> unat c" "2 \<le> unat d"
      using assms(2) that(1,2) by (auto simp: cluster_ok_def word_le_nat_alt)
    ultimately show ?thesis by (metis le_add_diff_inverse2 unsigned_word_eqI)
  qed
  have prod: "chain_sectors b cs = map (\<lambda>(c, j). of_nat (cluster_lba b c + j)) (List.product cs [0..<csz b])"
    by (simp add: chain_sectors_def cluster_sectors_def [abs_def] product_concat_map map_concat comp_def)
  have "inj_on (\<lambda>(c, j). of_nat (cluster_lba b c + j) :: u32) (set (List.product cs [0..<csz b]))"
    using eq by (auto simp: inj_on_def simp del: of_nat_add)
  then show ?thesis
    unfolding prod distinct_map using assms(3) by (simp only: distinct_product distinct_upt simp_thms)
qed


subsection \<open>The write loops\<close>

lemma write_sectors_single: "length bs = 512 \<Longrightarrow> write_sectors p a bs = p(a := bs)"
proof -
  assume len: "length bs = 512"
  have "unat (x - a) < 1 \<longleftrightarrow> x = a" for x by (simp add: unat_eq_0)
  then show ?thesis using len by (auto simp: write_sectors_def fun_eq_iff)
qed

lemma write_sector_ok:
  fixes s :: "'a fat_state_scheme"
  assumes ok: "disk_ok env cap s p" and vol: "volume_ok (bpb s) cap" and a: "unat a < cap"
    and n: "n \<noteq> 0" "unat n \<le> 512" and off: "off_stack loc (bpb s) (span buffer (unat n))"
  defines "bs \<equiv> load_bytes (mem s) buffer (unat n)"
  shows "\<exists>s'. write_sector env (write_buf loc) a buffer n s = (True, s') \<and> io_frame s s' \<and>
    disk_ok env cap s' (p(a := bs @ drop (length bs) (p a))) \<and> serial_out s' = serial_out s \<and>
    (\<forall>x. x \<notin> stack_bytes loc (bpb s) \<longrightarrow> mem s' x = mem s x)"
proof -
  have bps: "bps s = 512" using vol by (simp add: volume_ok_def)
  have fit: "unat a + unat (1 :: u32) \<le> cap" using a by simp
  have len: "length (p a) = 512" using ata.sector_size [OF ok a] .
  show ?thesis
  proof (cases "n = 512")
    case True
    then have bs: "length bs = 512" by (simp add: bs_def)
    obtain l where l: "disk_write env a buffer 1 s = (True, s\<lparr>mem := mem s, io_log := l\<rparr>)"
      "disk_ok env cap (s\<lparr>mem := mem s, io_log := l\<rparr>) (write_sectors p a (load_bytes (mem s) buffer 512))"
      using disk_write_law [OF ok _ fit, of buffer] by auto
    then have "disk_ok env cap (s\<lparr>io_log := l\<rparr>) (p(a := bs @ drop (length bs) (p a)))"
      using True write_sectors_single [OF bs, of p a] bs len by (simp add: bs_def)
    then show ?thesis
      using l(1) True bps by (intro exI [of _ "s\<lparr>io_log := l\<rparr>"]) (simp add: write_sector_def)
  next
    case False
    let ?buf = "write_buf loc"
    obtain l where l: "disk_read env a ?buf 1 s = (True, s\<lparr>mem := store_bytes ?buf (p a) (mem s), io_log := l\<rparr>)"
      "disk_ok env cap (s\<lparr>mem := store_bytes ?buf (p a) (mem s), io_log := l\<rparr>) p"
      using disk_read_law [OF ok _ fit, of ?buf] by (auto simp: sectors_from_def)
    let ?m = "memcpy ?buf buffer (ucast n) (store_bytes ?buf (p a) (mem s))"
    let ?s = "s\<lparr>io_log := l, mem := ?m\<rparr>"
    have ok2: "disk_ok env cap ?s p" using l(2) by (simp add: disk_ok_def)
    obtain l2 where l2: "disk_write env a ?buf 1 ?s = (True, ?s\<lparr>mem := mem ?s, io_log := l2\<rparr>)"
      "disk_ok env cap (?s\<lparr>mem := mem ?s, io_log := l2\<rparr>) (write_sectors p a (load_bytes (mem ?s) ?buf 512))"
      using disk_write_law [OF ok2 _ fit, of ?buf] by auto
    have apart: "span ?buf (unat (ucast n :: u64)) \<inter> span buffer (unat (ucast n :: u64)) = {}"
      using off n(2) by (auto simp: off_stack_def span_def)
    have "load_bytes ?m ?buf 512 = bs @ drop (length bs) (p a)"
    proof (rule nth_equalityI)
      show "length (load_bytes ?m ?buf 512) = length (bs @ drop (length bs) (p a))"
        using n(2) len by (simp add: bs_def)
      fix i assume "i < length (load_bytes ?m ?buf 512)"
      then have i: "i < 512" by simp
      have u: "unat (of_nat i :: u64) = i" using i by (intro unat_of_nat_u64) simp
      have b: "buffer + of_nat i \<notin> span ?buf 512" if "i < unat n"
        using off that u span_offset [of buffer "of_nat i" "unat n"] by (auto simp: off_stack_def simp del: span_offset)
      have "?m (?buf + of_nat i) = (if i < unat n then mem s (buffer + of_nat i) else p a ! i)"
      proof (cases "i < unat n")
        case True
        then have "store_bytes ?buf (p a) (mem s) (buffer + of_nat i) = mem s (buffer + of_nat i)"
          using b len by (intro store_bytes_other) simp_all
        then show ?thesis using True u memcpy_apply [OF apart] by simp
      next
        case False
        then show ?thesis using i u len memcpy_apply [OF apart] by (simp add: store_bytes_apply)
      qed
      then show "load_bytes ?m ?buf 512 ! i = (bs @ drop (length bs) (p a)) ! i"
        using i len n(2) by (simp add: nth_load_bytes bs_def nth_append)
    qed
    then have "write_sectors p a (load_bytes (mem ?s) ?buf 512) = p(a := bs @ drop (length bs) (p a))"
      by (subst write_sectors_single [OF length_load_bytes]) simp
    then have "disk_ok env cap (s\<lparr>io_log := l2, mem := ?m\<rparr>) (p(a := bs @ drop (length bs) (p a)))"
      using l2(2) disk_ok_cong [of "s\<lparr>io_log := l2, mem := ?m\<rparr>" "?s\<lparr>mem := mem ?s, io_log := l2\<rparr>" env cap] by simp
    moreover have "write_sector env ?buf a buffer n s = (True, s\<lparr>io_log := l2, mem := ?m\<rparr>)"
      using l(1) l2(1) False bps by (simp add: write_sector_def)
    moreover have "?m x = mem s x" if "x \<notin> stack_bytes loc (bpb s)" for x
      using that n(2) len memcpy_outside [of x ?buf "ucast n"] store_bytes_other [of "p a" x ?buf]
      by (auto simp: stack_bytes_def span_def)
    ultimately show ?thesis
      by (intro exI [of _ "s\<lparr>io_log := l2, mem := ?m\<rparr>"]) simp
  qed
qed


text \<open>The sectors of a cluster from number \<open>sec\<close> on.\<close>

lemma cluster_sector:
  assumes "volume_ok (bpb s) cap" "cluster_ok (bpb s) cap c" "sec < sectors_per_cluster (bpb s)"
  shows "cluster_to_lba c s + ucast sec = cluster_sectors (bpb s) c ! unat sec"
    "unat (cluster_to_lba c s + ucast sec) < cap"
proof -
  let ?b = "bpb s"
  note lba = cluster_to_lba_ok [OF assms(1,2)]
  have sec: "unat sec < csz ?b" using assms(3) by (simp add: word_less_nat_alt)
  have cap: "cap < 268435456" using assms(1) by (simp add: volume_ok_def)
  have u: "unat (cluster_to_lba c s + ucast sec) = cluster_lba ?b c + unat sec"
    using lba(3,4) sec cap by (subst unat_add_noof) simp_all
  then show "unat (cluster_to_lba c s + ucast sec) < cap" using lba(4) sec by simp
  have "of_nat (unat (cluster_to_lba c s + ucast sec)) = cluster_to_lba c s + ucast sec" by simp
  then show "cluster_to_lba c s + ucast sec = cluster_sectors ?b c ! unat sec"
    using sec unfolding u by (simp add: cluster_sectors_def)
qed

definition room :: "FAT32_BPB \<Rightarrow> u8 \<Rightarrow> nat" where
  "room b sec = 512 * (csz b - unat sec)"

lemma write_step_bytes:
  assumes n: "n = (if left > 512 then 512 else left :: u32)"
    and eq: "\<And>x. x \<in> span buffer (unat left) \<Longrightarrow> m' x = m x"
  defines "bs \<equiv> load_bytes m buffer (unat left)"
  shows "take 512 bs = load_bytes m buffer (unat n)"
    "drop 512 bs = load_bytes m' (buffer + ucast n) (unat (left - n))"
    "unat left = unat n + unat (left - n)"
proof -
  have nle: "n \<le> left" "unat n = min 512 (unat left)" using n by (auto simp: word_less_nat_alt word_le_nat_alt)
  then show sum: "unat left = unat n + unat (left - n)" by (simp add: unat_sub)
  have un: "(ucast n :: u64) = of_nat (unat n)" by (simp add: unsigned_word_eqI unat_of_nat_u64)
  have split: "bs = load_bytes m buffer (unat n) @ load_bytes m (buffer + ucast n) (unat (left - n))"
    unfolding bs_def un by (simp only: sum load_bytes_append)
  have short: "unat n = 512 \<or> unat n < 512 \<and> unat (left - n) = 0" using nle(2) sum by auto
  then show "take 512 bs = load_bytes m buffer (unat n)"
    by (elim disjE conjE) (simp_all add: split)
  have big: "unat left \<le> 18446744073709551616" "unat n \<le> unat left" using unat_lt_u32 [of left] sum by auto
  have "unat left - unat n = unat (left - n)" using sum by simp
  then have "span (buffer + ucast n) (unat (left - n)) \<subseteq> span buffer (unat left)"
    using span_split(2) [OF big(2,1), of buffer] unfolding un by simp
  then have "load_bytes m' (buffer + ucast n) (unat (left - n)) = load_bytes m (buffer + ucast n) (unat (left - n))"
    using eq big sum by (intro load_bytes_cong) auto
  then show "drop 512 bs = load_bytes m' (buffer + ucast n) (unat (left - n))"
    using short by (elim disjE conjE) (simp_all add: split)
qed

lemma write_sector_loop_ok:
  fixes s :: "'a fat_state_scheme"
  assumes "disk_ok env cap s p" "volume_ok b cap" "cluster_ok b cap c" "bpb s = b"
    and "sec \<le> sectors_per_cluster b" "off_stack loc b (span buffer (unat left))"
  shows "\<exists>s'. write_sector_loop env (write_buf loc) c sec buffer left s =
      (True, buffer + of_nat (min (unat left) (room b sec)), of_nat (unat left - room b sec), s') \<and> io_frame s s' \<and>
    disk_ok env cap s' (put_bytes p (drop (unat sec) (cluster_sectors b c))
      (take (room b sec) (load_bytes (mem s) buffer (unat left)))) \<and> serial_out s' = serial_out s \<and>
    (\<forall>x. x \<notin> stack_bytes loc b \<longrightarrow> mem s' x = mem s x)"
  using assms
proof (induction "csz b - unat sec" arbitrary: sec buffer left s p rule: less_induct)
  case less
  note ok = less(2) and vol = less(3) and cl = less(4) and b = less(5) and off = less(7)
  show ?case
  proof (cases "sec < sectors_per_cluster b \<and> left \<noteq> 0")
    case True
    then have sec: "sec < sectors_per_cluster b" and left: "left \<noteq> 0" by simp_all
    let ?bs = "load_bytes (mem s) buffer (unat left)"
    let ?a = "cluster_sectors b c ! unat sec" and ?as = "drop (unat (sec + 1)) (cluster_sectors b c)"
    define n where "n = (if left > 512 then 512 else left :: u32)"
    have n: "n \<noteq> 0" "unat n \<le> 512" using left by (auto simp: n_def word_less_nat_alt)
    have sec1: "unat (sec + 1) = Suc (unat sec)" using sec by (rule unat_inc_less)
    have secn: "unat sec < csz b" using sec by (simp add: word_less_nat_alt)
    have a: "cluster_to_lba c s + ucast sec = ?a" "unat ?a < cap"
      using cluster_sector [of s cap c sec] vol cl sec b by simp_all
    have offn: "off_stack loc b (span buffer (unat n))"
      using off by (rule off_stack_mono) (auto simp: span_def n_def word_less_nat_alt)
    obtain s1 where s1: "write_sector env (write_buf loc) ?a buffer n s = (True, s1)" "io_frame s s1"
      "disk_ok env cap s1 (p(?a := load_bytes (mem s) buffer (unat n) @ drop (unat n) (p ?a)))"
      "serial_out s1 = serial_out s" "\<And>x. x \<notin> stack_bytes loc b \<Longrightarrow> mem s1 x = mem s x"
      using write_sector_ok [OF ok _ a(2) n, of loc buffer] vol offn b by auto
    have eq: "mem s1 x = mem s x" if "x \<in> span buffer (unat left)" for x
      using that s1(5) off by (auto simp: off_stack_iff)
    note wb = write_step_bytes [where m = "mem s" and m' = "mem s1" and buffer = buffer, OF n_def eq]
    have lba: "cluster_to_lba c s \<noteq> 0" using cluster_to_lba_ok(2) [of s cap c] vol cl b by simp
    have bps: "bps s = 512" using vol b by (simp add: volume_ok_def)
    have nn: "(if left > bps s then bps s else left) = n" by (simp add: bps n_def)
    have run: "write_sector_loop env (write_buf loc) c sec buffer left s =
        write_sector_loop env (write_buf loc) c (sec + 1) (buffer + ucast n) (left - n) s1"
      using True [folded b] lba s1(1) by (subst write_sector_loop.simps) (simp add: Let_def nn a(1))
    have un: "(ucast n :: u64) = of_nat (unat n)" by (simp add: unsigned_word_eqI unat_of_nat_u64)
    have b1: "bpb s1 = b" using bpb_kept [OF s1(2)] b by simp
    have big: "unat left \<le> 18446744073709551616" "unat n \<le> unat left" using unat_lt_u32 [of left] wb(3) by auto
    have "span (buffer + ucast n) (unat (left - n)) \<subseteq> span buffer (unat left)"
      using span_split(2) [OF big(2,1), of buffer] wb(3) unfolding un by simp
    then have off1: "off_stack loc b (span (buffer + ucast n) (unat (left - n)))" using off off_stack_mono by blast
    have "sec + 1 \<le> sectors_per_cluster b" "csz b - unat (sec + 1) < csz b - unat sec"
      using sec1 secn by (simp_all add: word_le_nat_alt)
    from less(1) [OF this(2) s1(3) vol cl b1 this(1) off1] obtain s2 where
      s2: "write_sector_loop env (write_buf loc) c (sec + 1) (buffer + ucast n) (left - n) s1 =
        (True, buffer + ucast n + of_nat (min (unat (left - n)) (room b (sec + 1))),
          of_nat (unat (left - n) - room b (sec + 1)), s2)" "io_frame s1 s2"
      "disk_ok env cap s2 (put_bytes (p(?a := load_bytes (mem s) buffer (unat n) @ drop (unat n) (p ?a))) ?as
        (take (room b (sec + 1)) (load_bytes (mem s1) (buffer + ucast n) (unat (left - n)))))"
      "serial_out s2 = serial_out s1" "\<And>x. x \<notin> stack_bytes loc b \<Longrightarrow> mem s2 x = mem s1 x" by blast
    have room: "room b sec = 512 + room b (sec + 1)" using sec1 secn by (simp add: room_def)
    have n512: "unat n = min 512 (unat left)" by (auto simp: n_def word_less_nat_alt)
    have arith: "unat n + min (unat (left - n)) (room b (sec + 1)) = min (unat left) (room b sec)"
      "unat (left - n) - room b (sec + 1) = unat left - room b sec"
      using wb(3) room n512 by auto
    have "cluster_sectors b c \<noteq> [] \<and> unat sec < length (cluster_sectors b c)" using secn by (auto simp: cluster_sectors_def)
    then have "drop (unat sec) (cluster_sectors b c) = ?a # ?as" using sec1 by (simp add: Cons_nth_drop_Suc)
    moreover have "take 512 (take (room b sec) ?bs) = load_bytes (mem s) buffer (unat n)"
      using wb(1) room by (simp add: min_def)
    moreover have "drop 512 (take (room b sec) ?bs) =
        take (room b (sec + 1)) (load_bytes (mem s1) (buffer + ucast n) (unat (left - n)))"
      using wb(2) room by (simp add: drop_take)
    moreover have "take (room b sec) ?bs \<noteq> []" using left room by (auto simp: unat_eq_0 dest: arg_cong [of _ _ length])
    ultimately have "put_bytes p (drop (unat sec) (cluster_sectors b c)) (take (room b sec) ?bs) =
        put_bytes (p(?a := load_bytes (mem s) buffer (unat n) @ drop (unat n) (p ?a))) ?as
          (take (room b (sec + 1)) (load_bytes (mem s1) (buffer + ucast n) (unat (left - n))))"
      by (simp only: put_bytes.simps if_False length_load_bytes)
    then have "disk_ok env cap s2 (put_bytes p (drop (unat sec) (cluster_sectors b c)) (take (room b sec) ?bs))"
      using s2(3) by simp
    moreover have "buffer + ucast n + of_nat (min (unat (left - n)) (room b (sec + 1))) =
        buffer + of_nat (min (unat left) (room b sec))"
      unfolding un arith(1) [symmetric] by simp
    ultimately show ?thesis
      using run s2(1,2,4,5) s1(2,4,5) arith(2) by (auto simp: io_frame_def)
  next
    case False
    then have "min (unat left) (room b sec) = 0" "unat left - room b sec = unat left"
      using less(6) by (auto simp: room_def word_le_nat_alt word_less_nat_alt)
    moreover have "take (room b sec) (load_bytes (mem s) buffer (unat left)) = []"
      using calculation(1) by (simp flip: length_0_conv)
    ultimately show ?thesis
      using False ok b by (intro exI [of _ s], subst write_sector_loop.simps) auto
  qed
qed


lemma put_bytes_fat:
  assumes "volume_ok b cap" "\<forall>d \<in> set cs. cluster_ok b cap d" "cluster_ok b cap c"
  shows "fat_next (put_bytes p (chain_sectors b cs) bs) b c = fat_next p b c"
proof -
  have "fat_sector b c \<notin> set (chain_sectors b cs)"
    using chain_sector_range(1) [OF assms(1,2)] fat_offset(6,7) [OF assms(1,3)] by fastforce
  then show ?thesis by (simp add: fat_next_def put_bytes_other)
qed

lemma put_bytes_chain:
  assumes "volume_ok b cap" "\<forall>d \<in> set cs. cluster_ok b cap d"
  shows "fat_chain (put_bytes p (chain_sectors b cs) bs) b cap ds \<longleftrightarrow> fat_chain p b cap ds"
proof -
  have "successively (\<lambda>c d. fat_next (put_bytes p (chain_sectors b cs) bs) b c = d) ds \<longleftrightarrow>
      successively (\<lambda>c d. fat_next p b c = d) ds" if "\<forall>c \<in> set ds. cluster_ok b cap c"
    using that put_bytes_fat [OF assms] by (intro successively_cong) auto
  then show ?thesis by (auto simp: fat_chain_def)
qed

lemma chain_sectors_simps [simp]:
  "chain_sectors b [] = []" "chain_sectors b (c # cs) = cluster_sectors b c @ chain_sectors b cs"
  by (simp_all add: chain_sectors_def)

lemma length_cluster_sectors [simp]: "length (cluster_sectors b c) = csz b"
  by (simp add: cluster_sectors_def)

lemma write_cluster_step:
  fixes s :: "'a fat_state_scheme"
  assumes ok: "disk_ok env cap s p" and vol: "volume_ok b cap" and cl: "cluster_ok b cap c" and b: "bpb s = b"
    and k: "k < max_c" "left \<noteq> 0" and off: "off_stack loc b (span buffer (unat left))"
  defines "n \<equiv> 512 * csz b"
  obtains s' where "write_cluster_loop env loc max_c k c buffer left s =
      (if fat_next p b c < 2 \<or> fat_next p b c \<ge> 0x0FFFFFF8 then Some ((of_nat (unat left - n) :: u32) = 0, s')
       else write_cluster_loop env loc max_c (k + 1) (fat_next p b c) (buffer + of_nat (min (unat left) n))
         (of_nat (unat left - n)) s')"
    "io_frame s s'" "serial_out s' = serial_out s"
    "disk_ok env cap s' (put_bytes p (cluster_sectors b c) (take n (load_bytes (mem s) buffer (unat left))))"
    "\<And>x. x \<notin> stack_bytes loc b \<Longrightarrow> mem s' x = mem s x"
proof -
  have room: "room b 0 = n" by (simp add: room_def n_def)
  let ?p = "put_bytes p (cluster_sectors b c) (take n (load_bytes (mem s) buffer (unat left)))"
  obtain s1 where s1: "write_sector_loop env (write_buf loc) c 0 buffer left s =
      (True, buffer + of_nat (min (unat left) n), of_nat (unat left - n), s1)" "io_frame s s1"
    "disk_ok env cap s1 ?p" "serial_out s1 = serial_out s" "\<And>x. x \<notin> stack_bytes loc b \<Longrightarrow> mem s1 x = mem s x"
    using write_sector_loop_ok [OF ok vol cl b _ off, of 0] by (auto simp: room)
  have b1: "bpb s1 = b" using bpb_kept [OF s1(2)] b by simp
  have nxt: "fat_next ?p b c = fat_next p b c" using put_bytes_fat [OF vol, of "[c]" c] cl by simp
  obtain s2 where s2: "fat_get_next_cluster env loc c s1 = Some (fat_next p b c, s2)" "io_frame s1 s2"
    "disk_ok env cap s2 ?p" "\<forall>x. x \<notin> span (next_buf loc) 512 \<longrightarrow> mem s2 x = mem s1 x" "serial_out s2 = serial_out s1"
    using fat_get_next_cluster_ok [OF s1(3), of c loc] vol cl b1 nxt by auto
  show thesis
  proof (rule that)
    show "write_cluster_loop env loc max_c k c buffer left s =
      (if fat_next p b c < 2 \<or> fat_next p b c \<ge> 0x0FFFFFF8 then Some ((of_nat (unat left - n) :: u32) = 0, s2)
       else write_cluster_loop env loc max_c (k + 1) (fat_next p b c) (buffer + of_nat (min (unat left) n))
         (of_nat (unat left - n)) s2)"
      using k s1(1) s2(1) by (subst write_cluster_loop.simps) simp
    show "io_frame s s2" using s1(2) s2(2) by (rule io_frame_trans)
    show "mem s2 x = mem s x" if "x \<notin> stack_bytes loc b" for x
      using that s1(5) s2(4) by (simp add: stack_bytes_def)
  qed (use s1 s2 in simp_all)
qed

lemma write_cluster_loop_ok:
  fixes s :: "'a fat_state_scheme"
  assumes "disk_ok env cap s p" "volume_ok b cap" "fat_chain p b cap (c # cs)" "bpb s = b"
    and "length cs * (512 * csz b) < unat left" "unat left \<le> Suc (length cs) * (512 * csz b)"
    and "unat k + length cs < unat max_c" "off_stack loc b (span buffer (unat left))"
  shows "\<exists>s'. write_cluster_loop env loc max_c k c buffer left s = Some (True, s') \<and> io_frame s s' \<and>
    disk_ok env cap s' (put_bytes p (chain_sectors b (c # cs)) (load_bytes (mem s) buffer (unat left))) \<and>
    serial_out s' = serial_out s \<and> (\<forall>x. x \<notin> stack_bytes loc b \<longrightarrow> mem s' x = mem s x)"
  using assms
proof (induction cs arbitrary: c buffer left s p k)
  case Nil
  have cl: "cluster_ok b cap c" using Nil(3) by (simp add: fat_chain_def)
  have k: "k < max_c" "left \<noteq> 0" using Nil(5,7) by (auto simp: word_less_nat_alt)
  have le: "unat left \<le> 512 * csz b" using Nil(6) by simp
  have z: "unat left - 512 * csz b = 0" "min (unat left) (512 * csz b) = unat left"
    "take (512 * csz b) (load_bytes (mem s) buffer (unat left)) = load_bytes (mem s) buffer (unat left)"
    using le by simp_all
  obtain s' where s': "write_cluster_loop env loc max_c k c buffer left s =
      (if fat_next p b c < 2 \<or> fat_next p b c \<ge> 0x0FFFFFF8 then Some ((of_nat 0 :: u32) = 0, s')
       else write_cluster_loop env loc max_c (k + 1) (fat_next p b c) (buffer + of_nat (unat left)) (of_nat 0) s')"
    "io_frame s s'" "serial_out s' = serial_out s"
    "disk_ok env cap s' (put_bytes p (cluster_sectors b c) (load_bytes (mem s) buffer (unat left)))"
    "\<And>x. x \<notin> stack_bytes loc b \<Longrightarrow> mem s' x = mem s x"
    by (rule write_cluster_step [OF Nil(1,2) cl Nil(4) k Nil(8), unfolded z]) (rule that)
  have "write_cluster_loop env loc max_c j e buf 0 t = Some (True, t)" for j e buf and t :: "'a fat_state_scheme"
    by (subst write_cluster_loop.simps) simp
  then show ?case using s' by (intro exI [of _ s']) simp
next
  case (Cons d cs)
  let ?n = "512 * csz b" and ?bs = "load_bytes (mem s) buffer (unat left)"
  have gt: "?n < unat left" "length cs * ?n + ?n < unat left" using Cons(6) by simp_all
  have cl: "cluster_ok b cap c" "fat_next p b c = d" "fat_chain p b cap (d # cs)"
    using Cons(4) by (simp_all add: fat_chain_Cons)
  have k: "k < max_c" "left \<noteq> 0" using Cons(8) gt by (auto simp: word_less_nat_alt)
  have z: "min (unat left) ?n = ?n" using gt(1) by simp
  define left' :: u32 where "left' = of_nat (unat left - ?n)"
  have left': "unat left' = unat left - ?n"
    unfolding left'_def using unat_lt_u32 [of left] unat_add_of_nat [of "0 :: u32" "unat left - ?n"] by simp
  have rng: "\<not> (d < 2 \<or> d \<ge> 0x0FFFFFF8)" using cl(3) by (intro range_of_cluster [of b cap]) (simp add: fat_chain_def)
  obtain s1 where s1: "write_cluster_loop env loc max_c k c buffer left s =
      write_cluster_loop env loc max_c (k + 1) d (buffer + of_nat ?n) left' s1"
    "io_frame s s1" "serial_out s1 = serial_out s" "disk_ok env cap s1 (put_bytes p (cluster_sectors b c) (take ?n ?bs))"
    "\<And>x. x \<notin> stack_bytes loc b \<Longrightarrow> mem s1 x = mem s x"
    by (rule write_cluster_step [OF Cons(2,3) cl(1) Cons(5) k Cons(9), unfolded cl(2) z left'_def [symmetric] if_not_P [OF rng]])
      (rule that)
  have b1: "bpb s1 = b" using bpb_kept [OF s1(2)] Cons(5) by simp
  have ch: "fat_chain (put_bytes p (cluster_sectors b c) (take ?n ?bs)) b cap (d # cs)"
    using put_bytes_chain [OF Cons(3), of "[c]"] cl(1,3) by simp
  have big: "unat left \<le> 18446744073709551616" "?n \<le> unat left" using unat_lt_u32 [of left] gt by auto
  have sub: "span (buffer + of_nat ?n) (unat left - ?n) \<subseteq> span buffer (unat left)" using span_split(2) [OF big(2,1)] .
  then have off: "off_stack loc b (span (buffer + of_nat ?n) (unat left'))"
    unfolding left' by (rule off_stack_mono [OF Cons(9)])
  have k1: "unat (k + 1) = Suc (unat k)" using k(1) by (rule unat_inc_less)
  have "length cs * ?n < unat left'" "unat left' \<le> Suc (length cs) * ?n" "unat (k + 1) + length cs < unat max_c"
    using gt(2) Cons(7,8) by (simp_all add: left' k1)
  from Cons(1) [OF s1(4) Cons(3) ch b1 this off] obtain s2 where
    s2: "write_cluster_loop env loc max_c (k + 1) d (buffer + of_nat ?n) left' s1 = Some (True, s2)" "io_frame s1 s2"
      "disk_ok env cap s2 (put_bytes (put_bytes p (cluster_sectors b c) (take ?n ?bs)) (chain_sectors b (d # cs))
        (load_bytes (mem s1) (buffer + of_nat ?n) (unat left')))"
      "serial_out s2 = serial_out s1" "\<And>x. x \<notin> stack_bytes loc b \<Longrightarrow> mem s2 x = mem s1 x" by blast
  have "load_bytes (mem s1) (buffer + of_nat ?n) (unat left') = load_bytes (mem s) (buffer + of_nat ?n) (unat left')"
    using s1(5) off unat_lt_u32 [of left'] by (intro load_bytes_cong) (auto simp: off_stack_iff)
  also have "\<dots> = drop ?n ?bs"
  proof -
    have "?bs = load_bytes (mem s) buffer ?n @ load_bytes (mem s) (buffer + of_nat ?n) (unat left - ?n)"
      using big(2) by (simp only: load_bytes_append [symmetric] le_add_diff_inverse)
    then show ?thesis by (simp add: left')
  qed
  finally have "put_bytes (put_bytes p (cluster_sectors b c) (take ?n ?bs)) (chain_sectors b (d # cs))
      (load_bytes (mem s1) (buffer + of_nat ?n) (unat left')) = put_bytes p (chain_sectors b (c # d # cs)) ?bs"
    by (subst (2) chain_sectors_simps(2), subst put_bytes_append) (simp only: length_cluster_sectors)
  then show ?case
    using s1 s2 by (auto simp: io_frame_def)
qed

end
