(* ===== verification/FAT32_Directory.thy ===== *)
theory FAT32_Directory
  imports FAT32_Write
begin

text \<open>
  Looking up a name in the root directory. The specification works on the directory as a list
  of 32-byte entries: the first entry with the name counts, deleted, long-name and label
  entries are passed over, and an entry that starts with 0 ends the directory. The three
  nested loops of \<open>fat32_find_file\<close> compute exactly this.
\<close>

subsection \<open>The directory as a list of entries\<close>

datatype dir_result = Hit "u8 list" | Stop | More

fun dir_scan :: "u8 list \<Rightarrow> u8 list list \<Rightarrow> dir_result" where
  "dir_scan name [] = More"
| "dir_scan name (e # es) =
     (if e ! 0 = 0 then Stop
      else if e ! 0 = 0xE5 \<or> e ! 11 AND 0x0F = 0x0F \<or> e ! 11 AND 0x08 \<noteq> 0 then dir_scan name es
      else if take 11 e = name then Hit e
      else dir_scan name es)"

lemma dir_scan_append:
  "dir_scan name (xs @ ys) = (case dir_scan name xs of More \<Rightarrow> dir_scan name ys | r \<Rightarrow> r)"
  by (induction xs) (simp_all split: dir_result.split)

definition entries :: "u8 list \<Rightarrow> u8 list list" where
  "entries bs = map (\<lambda>k. take 32 (drop (32 * k) bs)) [0..<length bs div 32]"

lemma entries_append:
  assumes "32 dvd length xs"
  shows "entries (xs @ ys) = entries xs @ entries ys"
proof -
  obtain n where n: "length xs = 32 * n" using assms by blast
  have len: "(32 * n + length ys) div 32 = n + length ys div 32" by simp
  have "entries (xs @ ys) = map (\<lambda>k. take 32 (drop (32 * k) (xs @ ys))) [0..<n + length ys div 32]"
    by (simp only: entries_def length_append n len)
  also have "\<dots> = map (\<lambda>k. take 32 (drop (32 * k) xs)) [0..<n] @
      map (\<lambda>k. take 32 (drop (32 * k) ys)) [0..<length ys div 32]"
  proof (rule nth_equalityI)
    fix i assume "i < length (map (\<lambda>k. take 32 (drop (32 * k) (xs @ ys))) [0..<n + length ys div 32])"
    then have i: "i < n + length ys div 32" by simp
    show "map (\<lambda>k. take 32 (drop (32 * k) (xs @ ys))) [0..<n + length ys div 32] ! i =
      (map (\<lambda>k. take 32 (drop (32 * k) xs)) [0..<n] @ map (\<lambda>k. take 32 (drop (32 * k) ys)) [0..<length ys div 32]) ! i"
    proof (cases "i < n")
      case True
      then have "32 * i + 32 \<le> length xs" by (simp add: n)
      then show ?thesis using True i by (simp add: nth_append)
    next
      case False
      then have "drop (32 * i) (xs @ ys) = drop (32 * (i - n)) ys" using n by (simp add: diff_mult_distrib2)
      moreover have "i - n < length ys div 32" using False i by linarith
      ultimately show ?thesis using False i by (simp add: nth_append del: drop_append)
    qed
  qed simp
  finally show ?thesis by (simp add: entries_def n)
qed

subsection \<open>The loops\<close>

lemma memcmp_local_zero:
  "memcmp_local p q n i = 0 \<longleftrightarrow> (\<forall>k. i \<le> k \<and> k < n \<longrightarrow> p k = q k)"
proof (induction p q n i rule: memcmp_local.induct)
  case (1 p q n i)
  show ?case
  proof (cases "i < n \<and> p i = q i")
    case True
    have "memcmp_local p q n i = memcmp_local p q n (i + 1)" using True by (subst memcmp_local.simps) simp
    also have "\<dots> = 0 \<longleftrightarrow> (\<forall>k. i + 1 \<le> k \<and> k < n \<longrightarrow> p k = q k)" using 1 True by simp
    also have "\<dots> \<longleftrightarrow> (\<forall>k. i \<le> k \<and> k < n \<longrightarrow> p k = q k)"
    proof -
      have "i \<le> k \<longleftrightarrow> k = i \<or> i + 1 \<le> k" for k
        using unat_inc_less [of i n] True
        by (auto simp: word_le_nat_alt Suc_le_eq order.order_iff_strict dest: unsigned_word_eqI)
      then show ?thesis using True by auto
    qed
    finally show ?thesis .
  next
    case False
    then show ?thesis
      by (subst memcmp_local.simps) (auto simp: word_less_nat_alt word_le_nat_alt dest: unsigned_word_eqI)
  qed
qed

lemma memcmp_local_11:
  assumes "11 \<le> length name"
  shows "memcmp_local (\<lambda>k. name ! unat k) (\<lambda>k. m (a + ucast k)) 11 0 = 0 \<longleftrightarrow> load_bytes m a 11 = take 11 name"
proof -
  have "memcmp_local (\<lambda>k. name ! unat k) (\<lambda>k. m (a + ucast k)) 11 0 = 0 \<longleftrightarrow>
      (\<forall>k :: u32. unat k < 11 \<longrightarrow> name ! unat k = m (a + ucast k))"
    by (simp add: memcmp_local_zero word_less_nat_alt)
  also have "\<dots> \<longleftrightarrow> (\<forall>i < 11. name ! i = m (a + of_nat i))"
  proof -
    have u: "unat (of_nat i :: u32) = i" if "i < 11" for i
      using that unat_add_of_nat [of "0 :: u32" i] by simp
    have "(ucast k :: u64) = of_nat (unat k)" for k :: u32 by (simp add: unsigned_word_eqI unat_of_nat_u64)
    then show ?thesis using u by metis
  qed
  also have "\<dots> \<longleftrightarrow> load_bytes m a 11 = take 11 name"
    using assms by (auto simp: list_eq_iff_nth_eq nth_load_bytes)
  finally show ?thesis .
qed


definition same_result :: "memory \<Rightarrow> ptr \<Rightarrow> scan \<Rightarrow> dir_result \<Rightarrow> bool" where
  "same_result m buf r d \<longleftrightarrow> (case r of Found j \<Rightarrow> d = Hit (load_bytes m (buf + ucast j) 32) | End \<Rightarrow> d = Stop | Next \<Rightarrow> d = More)"

lemma ucast_u32_of_nat: "(ucast (k :: u32) :: u64) = of_nat (unat k)"
  by (simp add: unsigned_word_eqI unat_of_nat_u64)

lemma nth_entries:
  assumes "k < 16"
  shows "entries (load_bytes m buf 512) ! k = load_bytes m (buf + of_nat (32 * k)) 32"
proof (rule nth_equalityI)
  have e: "entries (load_bytes m buf 512) ! k = take 32 (drop (32 * k) (load_bytes m buf 512))"
    using assms by (simp add: entries_def)
  then show "length (entries (load_bytes m buf 512) ! k) = length (load_bytes m (buf + of_nat (32 * k)) 32)"
    using assms by simp
  fix i assume "i < length (entries (load_bytes m buf 512) ! k)"
  then have "i < 32" using e assms by simp
  then show "entries (load_bytes m buf 512) ! k ! i = load_bytes m (buf + of_nat (32 * k)) 32 ! i"
    using e assms by (simp add: nth_load_bytes algebra_simps)
qed

lemma find_entry_loop_scan:
  assumes "11 \<le> length name" "unat i = 32 * k" "k \<le> 16"
  shows "same_result m buf (find_entry_loop name buf m 512 i) (dir_scan (take 11 name) (drop k (entries (load_bytes m buf 512))))"
  using assms(2,3)
proof (induction "16 - k" arbitrary: k i)
  case 0
  then have "\<not> i < 512" "length (entries (load_bytes m buf 512)) \<le> k"
    by (simp_all add: word_less_nat_alt entries_def)
  then show ?case by (subst find_entry_loop.simps) (simp add: same_result_def)
next
  case (Suc d)
  then have k: "k < 16" by simp
  let ?es = "entries (load_bytes m buf 512)" and ?e = "load_bytes m (buf + of_nat (32 * k)) 32"
  have i: "i < 512" "(ucast i :: u64) = of_nat (32 * k)"
    using Suc(3) k by (simp_all add: word_less_nat_alt ucast_u32_of_nat)
  have i11: "(ucast (i + 11) :: u64) = of_nat (32 * k) + 11"
    using Suc(3) k unat_add_of_nat [of i 11] by (simp add: ucast_u32_of_nat)
  have i32: "unat (i + 32) = 32 * Suc k" using Suc(3) k unat_add_of_nat [of i 32] by simp
  have IH: "same_result m buf (find_entry_loop name buf m 512 (i + 32)) (dir_scan (take 11 name) (drop (Suc k) ?es))"
    using Suc(2) by (intro Suc(1) i32) auto
  define e where "e = ?e"
  have drop: "drop k ?es = e # drop (Suc k) ?es"
    using k nth_entries [OF k] by (simp add: e_def Cons_nth_drop_Suc [symmetric] entries_def)
  have ei: "e ! 0 = m (buf + ucast i)" "e ! 11 = m (buf + ucast (i + 11))"
    by (simp_all add: e_def nth_load_bytes i(2) i11 algebra_simps)
  have e11: "take 11 e = load_bytes m (buf + ucast i) 11"
    using load_bytes_append [of m "buf + of_nat (32 * k)" 11 21] by (simp add: e_def i(2))
  have r: "same_result m buf (Found i) (Hit e)" "same_result m buf End Stop"
    by (simp_all add: same_result_def e_def i(2))
  note cmp = memcmp_local_11 [OF assms(1), of m "buf + ucast i"]
  show ?case
    unfolding drop using IH r i(1) by (subst find_entry_loop.simps) (simp add: Let_def ei e11 cmp)
qed

lemma find_sector_loop_ok:
  fixes s :: "'a fat_state_scheme"
  assumes "disk_ok env cap s p" "volume_ok b cap" "cluster_ok b cap c" "bpb s = b"
    and "sec \<le> sectors_per_cluster b" "11 \<le> length name"
  shows "\<exists>r s'. find_sector_loop env buf name c sec s = (r, s') \<and> io_frame s s' \<and> disk_ok env cap s' p \<and>
    serial_out s' = serial_out s \<and> (\<forall>x. x \<notin> span buf 512 \<longrightarrow> mem s' x = mem s x) \<and>
    same_result (mem s') buf r (dir_scan (take 11 name) (entries (concat (map p (drop (unat sec) (cluster_sectors b c))))))"
  using assms
proof (induction "csz b - unat sec" arbitrary: sec s)
  case 0
  then have "\<not> sec < sectors_per_cluster b" "length (cluster_sectors b c) \<le> unat sec" by (simp_all add: word_less_nat_alt)
  then show ?case
    using 0(2,5) by (intro exI [of _ Next] exI [of _ s], subst find_sector_loop.simps)
      (simp add: same_result_def entries_def)
next
  case (Suc n)
  note ok = Suc(3) and vol = Suc(4) and cl = Suc(5) and b = Suc(6)
  have sec: "sec < sectors_per_cluster b" "unat sec < csz b" using Suc(2) by (simp_all add: word_less_nat_alt)
  let ?a = "cluster_sectors b c ! unat sec" and ?as = "drop (Suc (unat sec)) (cluster_sectors b c)"
  have a: "cluster_to_lba c s + ucast sec = ?a" "unat ?a + unat (1 :: u32) \<le> cap"
    using cluster_sector [of s cap c sec] vol cl sec(1) b by simp_all
  obtain l where l: "disk_read env ?a buf 1 s = (True, s\<lparr>mem := store_bytes buf (p ?a) (mem s), io_log := l\<rparr>)"
    "disk_ok env cap (s\<lparr>mem := store_bytes buf (p ?a) (mem s), io_log := l\<rparr>) p"
    using disk_read_law [OF ok _ a(2), of buf] by (auto simp: sectors_from_def)
  let ?s = "s\<lparr>mem := store_bytes buf (p ?a) (mem s), io_log := l\<rparr>"
  have len: "length (p ?a) = 512" using ata.sector_size [OF ok] a(2) by simp
  then have load: "load_bytes (mem ?s) buf 512 = p ?a" using load_store_bytes [of "p ?a" buf "mem s"] by simp
  let ?r = "find_entry_loop name buf (mem ?s) 512 0"
  have scan: "same_result (mem ?s) buf ?r (dir_scan (take 11 name) (entries (p ?a)))"
    using find_entry_loop_scan [OF Suc(8), of 0 0 "mem ?s" buf] load by simp
  have other: "\<forall>x. x \<notin> span buf 512 \<longrightarrow> mem ?s x = mem s x" using len store_bytes_other [of "p ?a"] by simp
  have bps: "bytes_per_sector (bpb s) = 512" using vol b by (simp add: volume_ok_def)
  have lba: "cluster_to_lba c s \<noteq> 0" using cluster_to_lba_ok(2) [of s cap c] vol cl b by simp
  have run: "find_sector_loop env buf name c sec s =
      (case ?r of Next \<Rightarrow> find_sector_loop env buf name c (sec + 1) ?s | r \<Rightarrow> (r, ?s))"
    using sec(1) [folded b] lba l(1) by (subst find_sector_loop.simps) (simp add: Let_def a(1) bps)
  have bytes: "entries (concat (map p (drop (unat sec) (cluster_sectors b c)))) = entries (p ?a) @ entries (concat (map p ?as))"
    using sec(2) len by (simp add: Cons_nth_drop_Suc [symmetric] entries_append)
  show ?case
  proof (cases "?r = Next")
    case False
    then have "find_sector_loop env buf name c sec s = (?r, ?s)" using run by (cases ?r) simp_all
    moreover have "dir_scan (take 11 name) (entries (concat (map p (drop (unat sec) (cluster_sectors b c))))) = dir_scan (take 11 name) (entries (p ?a))"
      unfolding bytes dir_scan_append using scan False by (cases ?r) (auto simp: same_result_def)
    ultimately show ?thesis
      using scan l(2) other by (intro exI [of _ ?r] exI [of _ ?s]) simp
  next
    case True
    have more: "dir_scan (take 11 name) (entries (p ?a)) = More" using scan True by (simp add: same_result_def)
    have s1: "unat (sec + 1) = Suc (unat sec)" using sec(1) by (rule unat_inc_less)
    have "n = csz b - unat (sec + 1)" "sec + 1 \<le> sectors_per_cluster b"
      using s1 sec(2) Suc(2) by (simp_all add: word_le_nat_alt)
    from Suc(1) [OF this(1) l(2) vol cl _ this(2) Suc(8)] b obtain r s' where
      "find_sector_loop env buf name c (sec + 1) ?s = (r, s')" "io_frame ?s s'" "disk_ok env cap s' p"
      "serial_out s' = serial_out ?s" "\<forall>x. x \<notin> span buf 512 \<longrightarrow> mem s' x = mem ?s x"
      "same_result (mem s') buf r (dir_scan (take 11 name) (entries (concat (map p ?as))))"
      unfolding s1 by auto
    then show ?thesis
      using run True other more by (intro exI [of _ r] exI [of _ s']) (simp add: bytes dir_scan_append io_frame_def)
  qed
qed


lemma cluster_bytes_sectors: "cluster_bytes p b c = concat (map p (cluster_sectors b c))"
  using chain_bytes_sectors [of p b "[c]"] by (simp add: chain_bytes_def)

definition end_mark :: "u32 \<Rightarrow> bool" where
  "end_mark c \<longleftrightarrow> c < 2 \<or> c \<ge> 0x0FFFFFF8"

lemma find_cluster_loop_ok:
  fixes s :: "'a fat_state_scheme"
  assumes "disk_ok env cap s p" "volume_ok b cap" "fat_chain p b cap (c # cs)" "bpb s = b"
    and "end_mark (fat_next p b (last (c # cs)))" "unat k + length cs < unat max_c" "11 \<le> length name"
  shows "\<exists>r s'. find_cluster_loop env loc name max_c k c s = Some (r, s') \<and> io_frame s s' \<and> disk_ok env cap s' p \<and>
    serial_out s' = serial_out s \<and>
    (case dir_scan (take 11 name) (entries (chain_bytes p b (c # cs))) of
       Hit e \<Rightarrow> \<exists>j. r = Found j \<and> load_bytes (mem s') (find_buf loc + ucast j) 32 = e
     | _ \<Rightarrow> r = End) \<and>
    (\<forall>x. x \<notin> span (find_buf loc) 512 \<longrightarrow> x \<notin> span (next_buf loc) 512 \<longrightarrow> mem s' x = mem s x)"
  using assms
proof (induction cs arbitrary: c s k)
  case Nil
  have cl: "cluster_ok b cap c" using Nil(3) by (simp add: fat_chain_def)
  have k: "k < max_c" using Nil(6) by (simp add: word_less_nat_alt)
  let ?d = "dir_scan (take 11 name) (entries (chain_bytes p b [c]))"
  obtain r s1 where s1: "find_sector_loop env (find_buf loc) name c 0 s = (r, s1)" "io_frame s s1" "disk_ok env cap s1 p"
    "serial_out s1 = serial_out s" "\<forall>x. x \<notin> span (find_buf loc) 512 \<longrightarrow> mem s1 x = mem s x"
    "same_result (mem s1) (find_buf loc) r ?d"
    using find_sector_loop_ok [OF Nil(1,2) cl Nil(4) _ Nil(7), of 0 "find_buf loc"]
    by (auto simp: chain_bytes_def cluster_bytes_sectors)
  show ?case
  proof (cases "r = Next")
    case True
    have b1: "bpb s1 = b" using bpb_kept [OF s1(2)] Nil(4) by simp
    obtain s2 where s2: "fat_get_next_cluster env loc c s1 = Some (fat_next p b c, s2)" "io_frame s1 s2"
      "disk_ok env cap s2 p" "\<forall>x. x \<notin> span (next_buf loc) 512 \<longrightarrow> mem s2 x = mem s1 x" "serial_out s2 = serial_out s1"
      using fat_get_next_cluster_ok [OF s1(3), of c loc] Nil(2) cl b1 by auto
    have "find_cluster_loop env loc name max_c k c s = Some (End, s2)"
      using k s1(1) True s2(1) Nil(5) by (subst find_cluster_loop.simps) (auto simp: end_mark_def)
    moreover have "?d = More" using s1(6) True by (simp add: same_result_def)
    ultimately show ?thesis
      using s1(2,4,5) s2 by (intro exI [of _ End] exI [of _ s2]) (simp add: io_frame_def)
  next
    case False
    then have run: "find_cluster_loop env loc name max_c k c s = Some (r, s1)"
      using k s1(1) by (subst find_cluster_loop.simps) simp
    moreover have "case ?d of Hit e \<Rightarrow> \<exists>j. r = Found j \<and> load_bytes (mem s1) (find_buf loc + ucast j) 32 = e | _ \<Rightarrow> r = End"
      using s1(6) False by (cases r) (auto simp: same_result_def)
    ultimately show ?thesis
      using s1 by (intro exI [of _ r] exI [of _ s1]) simp
  qed
next
  case (Cons d cs)
  have cl: "cluster_ok b cap c" "fat_next p b c = d" "fat_chain p b cap (d # cs)"
    using Cons(4) by (simp_all add: fat_chain_Cons)
  have k: "k < max_c" using Cons(7) by (simp add: word_less_nat_alt)
  let ?d = "dir_scan (take 11 name) (entries (cluster_bytes p b c))"
  obtain r s1 where s1: "find_sector_loop env (find_buf loc) name c 0 s = (r, s1)" "io_frame s s1" "disk_ok env cap s1 p"
    "serial_out s1 = serial_out s" "\<forall>x. x \<notin> span (find_buf loc) 512 \<longrightarrow> mem s1 x = mem s x"
    "same_result (mem s1) (find_buf loc) r ?d"
    using find_sector_loop_ok [OF Cons(2,3) cl(1) Cons(5) _ Cons(8), of 0 "find_buf loc"]
    by (auto simp: cluster_bytes_sectors)
  have "length (cluster_bytes p b c) = 512 * csz b"
    using length_cluster_bytes [OF Cons(2)] cl(1) by (simp add: cluster_lba_def cluster_ok_def)
  then have dvd: "32 dvd length (cluster_bytes p b c)" by simp
  have "chain_bytes p b (c # d # cs) = cluster_bytes p b c @ chain_bytes p b (d # cs)" by (simp add: chain_bytes_def)
  then have scan: "dir_scan (take 11 name) (entries (chain_bytes p b (c # d # cs))) =
      (case ?d of More \<Rightarrow> dir_scan (take 11 name) (entries (chain_bytes p b (d # cs))) | r \<Rightarrow> r)"
    by (simp only: entries_append [OF dvd] dir_scan_append)
  show ?case
  proof (cases "r = Next")
    case True
    have more: "?d = More" using s1(6) True by (simp add: same_result_def)
    have b1: "bpb s1 = b" using bpb_kept [OF s1(2)] Cons(5) by simp
    obtain s2 where s2: "fat_get_next_cluster env loc c s1 = Some (d, s2)" "io_frame s1 s2"
      "disk_ok env cap s2 p" "\<forall>x. x \<notin> span (next_buf loc) 512 \<longrightarrow> mem s2 x = mem s1 x" "serial_out s2 = serial_out s1"
      using fat_get_next_cluster_ok [OF s1(3), of c loc] Cons(3) cl(1,2) b1 by auto
    have b2: "bpb s2 = b" using bpb_kept [OF s2(2)] b1 by simp
    have rng: "\<not> (d < 2 \<or> d \<ge> 0x0FFFFFF8)" using cl(3) by (intro range_of_cluster [of b cap]) (simp add: fat_chain_def)
    have run: "find_cluster_loop env loc name max_c k c s = find_cluster_loop env loc name max_c (k + 1) d s2"
      using k s1(1) True s2(1) rng by (subst find_cluster_loop.simps) simp
    have k1: "unat (k + 1) + length cs < unat max_c" using Cons(7) unat_inc_less [OF k] by simp
    have "end_mark (fat_next p b (last (d # cs)))" using Cons(6) by simp
    from Cons(1) [OF s2(3) Cons(3) cl(3) b2 this k1 Cons(8)] obtain r2 s3 where
      "find_cluster_loop env loc name max_c (k + 1) d s2 = Some (r2, s3)" "io_frame s2 s3" "disk_ok env cap s3 p"
      "serial_out s3 = serial_out s2"
      "case dir_scan (take 11 name) (entries (chain_bytes p b (d # cs))) of
         Hit e \<Rightarrow> \<exists>j. r2 = Found j \<and> load_bytes (mem s3) (find_buf loc + ucast j) 32 = e | _ \<Rightarrow> r2 = End"
      "\<forall>x. x \<notin> span (find_buf loc) 512 \<longrightarrow> x \<notin> span (next_buf loc) 512 \<longrightarrow> mem s3 x = mem s2 x" by blast
    then show ?thesis
      using run more s1(2,4,5) s2(2,4,5) by (intro exI [of _ r2] exI [of _ s3]) (simp add: scan io_frame_def)
  next
    case False
    then have run: "find_cluster_loop env loc name max_c k c s = Some (r, s1)"
      using k s1(1) by (subst find_cluster_loop.simps) simp
    moreover have "case dir_scan (take 11 name) (entries (chain_bytes p b (c # d # cs))) of
        Hit e \<Rightarrow> \<exists>j. r = Found j \<and> load_bytes (mem s1) (find_buf loc + ucast j) 32 = e | _ \<Rightarrow> r = End"
      unfolding scan using s1(6) False by (cases r) (auto simp: same_result_def)
    ultimately show ?thesis
      using s1 by (intro exI [of _ r] exI [of _ s1]) simp
  qed
qed

end
