(* ===== verification/Heap_Region.thy ===== *)
theory Heap_Region
  imports Heap_Properties
begin

text \<open>
  The heap as a region of memory: all blocks and headers lie in it, \<open>kmalloc\<close> and \<open>kfree\<close>
  write nowhere else, and writes outside of it do not disturb the heap. The locale extends
  the allocator's contract by these laws, and its lemmas about taking and releasing a block serve
  every component with a temporary buffer.
\<close>

locale region_allocator = allocator +
  fixes region :: "'s \<Rightarrow> ptr set"
  assumes block_in_region: "live s L \<Longrightarrow> (a, z) \<in> L \<Longrightarrow> span a (unat z) \<subseteq> region s"
    and alloc_region: "live s L \<Longrightarrow> alloc n s = Some (p, s') \<Longrightarrow>
      region s' = region s \<and> (\<forall>x. x \<notin> region s \<longrightarrow> bytes s' x = bytes s x)"
    and dealloc_region: "live s L \<Longrightarrow> dealloc p s = Some s' \<Longrightarrow>
      region s' = region s \<and> (\<forall>x. x \<notin> region s \<longrightarrow> bytes s' x = bytes s x)"
    and poke_outside: "live s L \<Longrightarrow> (\<And>x. x \<in> region s \<Longrightarrow> m x = bytes s x) \<Longrightarrow> live (poke m s) L"
    and poke_poke: "poke m (poke m' s) = poke m s"
    and region_poke: "region (poke m s) = region s"
begin

text \<open>A write into one block and outside the heap at once.\<close>

lemma poke_block_and_outside:
  assumes "live s L" "(a, z) \<in> L" "\<And>x. x \<in> region s \<Longrightarrow> x \<notin> span a (unat z) \<Longrightarrow> m x = bytes s x"
  shows "live (poke m s) L"
proof -
  let ?m = "\<lambda>x. if x \<in> span a (unat z) then m x else bytes s x"
  have "live (poke ?m s) L" using assms(1,2) by (rule poke_law) simp
  then have "live (poke m (poke ?m s)) L"
    by (rule poke_outside) (use assms(3) in \<open>auto simp: region_poke bytes_poke\<close>)
  then show ?thesis by (simp only: poke_poke)
qed

text \<open>Giving a block back: the others stay live and unchanged, and so does memory outside the heap.\<close>

lemma release_block:
  assumes "live s (insert (p, z) L)" "\<forall>w. (p, w) \<notin> L" "z \<noteq> 0"
  obtains s' where "dealloc p s = Some s'" "live s' L" "region s' = region s"
    "\<And>a w x. (a, w) \<in> L \<Longrightarrow> x \<in> span a (unat w) \<Longrightarrow> bytes s' x = bytes s x"
    "\<And>x. x \<notin> region s \<Longrightarrow> bytes s' x = bytes s x"
proof -
  have L: "insert (p, z) L - {(p, z)} = L" using assms(2) by auto
  obtain s' where s': "dealloc p s = Some s'" "live s' L"
    "\<forall>(a, w) \<in> L. \<forall>x \<in> span a (unat w). bytes s' x = bytes s x"
    using dealloc_law [OF assms(1) insertI1 assms(3)] unfolding L by blast
  have "bytes s' x = bytes s x" if "(a, w) \<in> L" "x \<in> span a (unat w)" for a w x
    using bspec [OF s'(3) that(1)] that(2) by simp
  then show thesis using that s'(1,2) dealloc_region [OF assms(1) s'(1)] by simp
qed

text \<open>Taking a block for temporary use: either there is none and nothing changes, or it is new.\<close>

lemma take_block:
  assumes "live s L" "n \<noteq> 0" "unat n \<le> 4294967288"
  obtains (none) s' where "alloc n s = Some (NULL, s')" "live s' L" "bytes s' = bytes s" "region s' = region s"
  | (some) p z s' where "alloc n s = Some (p, s')" "p \<noteq> NULL" "n \<le> z" "live s' (insert (p, z) L)" "\<forall>w. (p, w) \<notin> L"
      "region s' = region s" "span p (unat n) \<subseteq> span p (unat z)" "span p (unat z) \<subseteq> region s"
      "\<And>a w x. (a, w) \<in> L \<Longrightarrow> x \<in> span a (unat w) \<Longrightarrow> bytes s' x = bytes s x \<and> x \<notin> span p (unat z)"
      "\<And>x. x \<notin> region s \<Longrightarrow> bytes s' x = bytes s x"
proof -
  from alloc_law [OF assms] obtain p s' where al: "alloc n s = Some (p, s')" and
    c: "p = NULL \<and> live s' L \<and> bytes s' = bytes s \<or>
      p \<noteq> NULL \<and> (\<exists>z \<ge> n. live s' (insert (p, z) L) \<and> (\<forall>w. (p, w) \<notin> L) \<and>
        (\<forall>(a, w) \<in> L. \<forall>x \<in> span a (unat w). bytes s' x = bytes s x))" by blast
  note reg = alloc_region [OF assms(1) al]
  show thesis
  proof (cases "p = NULL")
    case True
    then show ?thesis using none c al reg by simp
  next
    case False
    then obtain z where z: "n \<le> z" "live s' (insert (p, z) L)" "\<forall>w. (p, w) \<notin> L"
      "\<forall>(a, w) \<in> L. \<forall>x \<in> span a (unat w). bytes s' x = bytes s x" using c by blast
    have "bytes s' x = bytes s x \<and> x \<notin> span p (unat z)" if "(a, w) \<in> L" "x \<in> span a (unat w)" for a w x
    proof -
      have "(a, w) \<noteq> (p, z)" using that(1) z(3) by auto
      then have "span a (unat w) \<inter> span p (unat z) = {}"
        using separate [OF z(2), of a w p z] that(1) by simp
      then show ?thesis using that(2) bspec [OF z(4) that(1)] by auto
    qed
    moreover have "span p (unat n) \<subseteq> span p (unat z)" using z(1) by (auto simp: span_def word_le_nat_alt)
    moreover have "span p (unat z) \<subseteq> region s" using block_in_region [OF z(2) insertI1] reg by simp
    ultimately show ?thesis using some [OF al False z(1,2,3)] reg by blast
  qed
qed

end

definition heap_region :: "'a memory_state_scheme \<Rightarrow> ptr set" where
  "heap_region s = span (heap_start s) 16777216"

lemma heap_region_iff:
  assumes "heap_core s bs"
  shows "x \<in> heap_region s \<longleftrightarrow> unat (heap_start s) \<le> unat x \<and> unat x < unat (heap_start s) + 16777216"
  unfolding heap_region_def using assms by (intro span_noof) (simp add: heap_core_def)

lemma block_region:
  assumes core: "heap_core s bs" and j: "j < length bs"
  shows "unat (heap_start s) \<le> unat (blk_addr (heap_start s) bs j)"
    "unat (blk_addr (heap_start s) bs j) + blk_extent (bs ! j) \<le> unat (heap_start s) + 16777216"
proof -
  note c = heap_coreD [OF core]
  show "unat (heap_start s) \<le> unat (blk_addr (heap_start s) bs j)" by (simp add: unat_blk_addr [OF c(3)])
  show "unat (blk_addr (heap_start s) bs j) + blk_extent (bs ! j) \<le> unat (heap_start s) + 16777216"
    using blk_addr_less [OF c(3), of j "length bs"] j c(5) by (simp add: unat_blk_addr [OF c(3)])
qed

interpretation kheap: region_allocator heap_live kmalloc kfree mem "\<lambda>m s. s\<lparr>mem := m\<rparr>" heap_region
proof
  fix s s' :: "'a memory_state_scheme" and L :: "(ptr \<times> u32) set" and a p :: ptr and z n :: u32 and m m' :: memory
  assume "heap_live s L"
  then obtain bs where inv: "heap_inv s bs" and L: "L = live_blocks (heap_start s) bs" by (auto simp: heap_live_def)
  then have core: "heap_core s bs" by (simp add: heap_inv_def heap_ready_def)
  note reg = heap_region_iff [OF core]
  show "span a (unat z) \<subseteq> heap_region s" if az: "(a, z) \<in> L"
  proof -
    obtain j where j: "j < length bs" "a = payload (heap_start s) bs j" "z = fst (bs ! j)"
      using az L by (auto simp: live_blocks_iff)
    show ?thesis using block_region [OF core j(1)] j by (auto simp: reg payload_span [OF core j(1)])
  qed
  show "heap_region s' = heap_region s \<and> (\<forall>x. x \<notin> heap_region s \<longrightarrow> mem s' x = mem s x)"
    if k: "kmalloc n s = Some (p, s')"
  proof (cases "n = 0")
    case True
    then have "s' = s" using core k by (auto simp: kmalloc_def heap_core_def)
    then show ?thesis by simp
  next
    case False
    show ?thesis
      using inv False
    proof (cases rule: kmalloc_cases)
      case (none t)
      then show ?thesis using k by (simp add: heap_region_def)
    next
      case (some j t)
      then have "mem s' x = mem s x" if "x \<notin> heap_region s" for x
        using that k block_region [OF core some(2)] by (auto simp: reg)
      then show ?thesis using some k by (simp add: heap_region_def)
    qed
  qed
  show "heap_region s' = heap_region s \<and> (\<forall>x. x \<notin> heap_region s \<longrightarrow> mem s' x = mem s x)"
    if k: "kfree p s = Some s'"
  proof (cases "\<exists>j < length bs. p = payload (heap_start s) bs j \<and> \<not> snd (bs ! j)")
    case False
    then have "\<forall>z. (p, z) \<notin> live_blocks (heap_start s) bs" by (auto simp: live_blocks_iff)
    then obtain out where "kfree p s = Some (s\<lparr>serial_out := serial_out s @ out\<rparr>)"
      using kfree_refuses [OF inv] by blast
    then show ?thesis using k by (auto simp: heap_region_def)
  next
    case True
    then obtain j where j: "j < length bs" "p = payload (heap_start s) bs j" "\<not> snd (bs ! j)" by blast
    have nn: "heap_initialized s \<noteq> 0" "heap_start s \<noteq> NULL" "p \<noteq> NULL"
      using core payload_nonnull [OF core j(1)] j(2) by (simp_all add: heap_core_def)
    have hdr: "x \<notin> span (blk_addr (heap_start s) bs i) 16" if "x \<notin> heap_region s" "i < length bs" for x i
      using that block_region [OF core that(2)] by (auto simp: reg hdr_in_block [OF core that(2)] blk_extent_def)
    have "freed_mem (heap_start s) bs j (mem s) x = mem s x" if "x \<notin> heap_region s" for x
      using hdr [OF that] j(1) by (intro freed_mem_outside) (auto simp: prev_addr_def split: if_splits)
    moreover have "heap_ready s bs" using inv by (simp add: heap_inv_def)
    ultimately show ?thesis
      using kfree_payload [of s bs j] k j nn
      by (cases "heap_start s + HEAP_PAGE_COUNT * PAGE_SIZE \<le> p")
        (auto simp: kfree_def serial_simps heap_region_def)
  qed
  show "heap_live (s\<lparr>mem := m\<rparr>) L" if "\<And>x. x \<in> heap_region s \<Longrightarrow> m x = mem s x"
  proof -
    have "hchain m (heap_start s) bs NULL = hchain (mem s) (heap_start s) bs NULL"
      using heap_coreD(3,5) [OF core] that reg by (intro hchain_cong) simp_all
    then have "heap_inv (s\<lparr>mem := m\<rparr>) bs"
      using inv by (simp add: heap_inv_def heap_ready_def heap_core_def)
    then show ?thesis using L by (auto simp: heap_live_def)
  qed
next
  fix s :: "'a memory_state_scheme" and m m' :: memory
  show "s\<lparr>mem := m', mem := m\<rparr> = s\<lparr>mem := m\<rparr>" by simp
  show "heap_region (s\<lparr>mem := m\<rparr>) = heap_region s" by (simp add: heap_region_def)
qed


text \<open>The heap does not depend on the rest of the state.\<close>

lemma heap_live_cong:
  fixes s :: "'a memory_state_scheme" and t :: "'b memory_state_scheme"
  assumes "mem s = mem t" "heap_start s = heap_start t" "heap_search_hint s = heap_search_hint t"
    "heap_initialized s = heap_initialized t" "heap_lock s = heap_lock t"
    "total_allocated s = total_allocated t" "total_freed s = total_freed t"
  shows "heap_live s L \<longleftrightarrow> heap_live t L"
  using assms by (simp add: heap_live_def heap_inv_def heap_ready_def heap_core_def)

end
