(* ===== verification/Syscall_File.thy ===== *)
theory Syscall_File
  imports FAT32_Properties Heap_Region
begin

text \<open>
  The file system calls of \<open>Kernel/Syscall/Syscall_File.c\<close>: the table of 16 open files, the
  conversion of path names to the 11 characters of a directory entry, and opening,
  reading, writing and closing. The table index is checked before every access, as in the
  source. \<open>int32_t\<close> and \<open>int64_t\<close> results are integers; -1 is an error.
\<close>

definition FILE_MAX_FD :: int where "FILE_MAX_FD = 16"

record kernel_file =
  used :: u8
  writable :: u8
  kfile :: FAT32_FILE
  offset :: u32

record file_state = fat_state +
  g_files :: "kernel_file list"

definition zero_file :: FAT32_FILE where
  "zero_file = \<lparr>file_name = replicate 12 0, first_cluster = 0, file_size = 0\<rparr>"

definition zero_kernel_file :: kernel_file where
  "zero_kernel_file = \<lparr>used = 0, writable = 0, kfile = zero_file, offset = 0\<rparr>"

definition file_at :: "'a file_state_scheme \<Rightarrow> int \<Rightarrow> kernel_file" where
  "file_at s fd = g_files s ! nat fd"

definition set_file :: "int \<Rightarrow> (kernel_file \<Rightarrow> kernel_file) \<Rightarrow> 'a file_state_scheme \<Rightarrow> 'a file_state_scheme" where
  "set_file fd f s = s\<lparr>g_files := (g_files s)[nat fd := f (file_at s fd)]\<rparr>"

subsection \<open>Path names\<close>

definition to_upper_ascii :: "u8 \<Rightarrow> u8" where
  "to_upper_ascii c = (if 0x61 \<le> c \<and> c \<le> 0x7A then c - (0x61 - 0x41) else c)"

function path_loop :: "memory \<Rightarrow> ptr \<Rightarrow> nat \<Rightarrow> nat \<Rightarrow> bool \<Rightarrow> u8 list \<Rightarrow> bool \<times> u8 list" where
  "path_loop m p name_len ext_len in_ext out_name =
     (let c = m p
      in if c = 0 then (0 < name_len, out_name)
         else if c = 0x2E
         then if in_ext then (False, out_name) else path_loop m (p + 1) name_len ext_len True out_name
         else let c = to_upper_ascii c
              in if \<not> in_ext
                 then if 8 \<le> name_len then (False, out_name)
                      else path_loop m (p + 1) (name_len + 1) ext_len in_ext (out_name[name_len := c])
                 else if 3 \<le> ext_len then (False, out_name)
                      else path_loop m (p + 1) name_len (ext_len + 1) in_ext (out_name[8 + ext_len := c]))"
  by pat_completeness auto
termination
  by (relation "measure (\<lambda>(m, p, name_len, ext_len, in_ext, out_name).
      (8 - name_len) + (3 - ext_len) + (if in_ext then 0 else 1))") auto

declare path_loop.simps [simp del]

definition path_to_fat83 :: "memory \<Rightarrow> ptr \<Rightarrow> bool \<times> u8 list" where
  "path_to_fat83 m path =
     (let out_name = replicate 11 0x20 @ [0]
      in if path = NULL then (False, out_name) else path_loop m path 0 0 False out_name)"

subsection \<open>The system calls\<close>

definition syscall_file_init :: "'a file_state_scheme \<Rightarrow> 'a file_state_scheme" where
  "syscall_file_init s = s\<lparr>g_files := replicate 16 zero_kernel_file\<rparr>"

function open_loop :: "FAT32_FILE \<Rightarrow> u64 \<Rightarrow> int \<Rightarrow> 'a file_state_scheme \<Rightarrow> int \<times> 'a file_state_scheme" where
  "open_loop file flags fd s =
     (if fd < FILE_MAX_FD
      then if used (file_at s fd) = 0
           then (fd, set_file fd (\<lambda>f. f\<lparr>used := 1, writable := (if flags AND 1 \<noteq> 0 then 1 else 0),
                   kfile := file, offset := 0\<rparr>) s)
           else open_loop file flags (fd + 1) s
      else (- 1, s))"
  by pat_completeness auto
termination
  by (relation "measure (\<lambda>(file, flags, fd, s). nat (FILE_MAX_FD - fd))") auto

declare open_loop.simps [simp del]

definition syscall_file_open ::
  "io_env \<Rightarrow> fat_locals \<Rightarrow> ptr \<Rightarrow> u64 \<Rightarrow> 'a file_state_scheme \<Rightarrow> (int \<times> 'a file_state_scheme) option" where
  "syscall_file_open env loc path flags s =
     (let (ok, fat_name) = path_to_fat83 (mem s) path
      in if \<not> ok then Some (- 1, s)
         else do {
           (found, file, s) \<leftarrow> fat32_find_file env loc (Some fat_name) (Some zero_file) s;
           if \<not> found then Some (- 1, s) else Some (open_loop (the file) flags 0 s)
         })"

definition bad_fd :: "int \<Rightarrow> ptr \<Rightarrow> 'a file_state_scheme \<Rightarrow> bool" where
  "bad_fd fd buffer s \<longleftrightarrow> fd < 0 \<or> fd \<ge> FILE_MAX_FD \<or> buffer = NULL \<or> used (file_at s fd) = 0"

definition syscall_file_read ::
  "io_env \<Rightarrow> fat_locals \<Rightarrow> int \<Rightarrow> ptr \<Rightarrow> u64 \<Rightarrow> 'a file_state_scheme \<Rightarrow> (int \<times> 'a file_state_scheme) option" where
  "syscall_file_read env loc fd buffer len s =
     (if bad_fd fd buffer s then Some (- 1, s)
      else if len = 0 then Some (0, s)
      else let f = file_at s fd; fsize = file_size (kfile f)
           in if offset f \<ge> fsize then Some (0, s)
              else let remaining = ucast fsize - ucast (offset f) :: u64;
                       to_read = (if len < remaining then len else remaining)
                   in do {
                     (all_data, s) \<leftarrow> kmalloc fsize s;
                     if all_data = NULL then Some (- 1, s)
                     else do {
                       (ok, s) \<leftarrow> fat32_read_file env loc (Some (kfile f)) all_data s;
                       if \<not> ok then do { s \<leftarrow> kfree all_data s; Some (- 1, s) }
                       else let s = s\<lparr>mem := memcpy buffer (all_data + ucast (offset f)) to_read (mem s)\<rparr>;
                                s = set_file fd (\<lambda>f. f\<lparr>offset := offset f + ucast to_read\<rparr>) s
                            in do { s \<leftarrow> kfree all_data s; Some (sint to_read, s) }
                     }
                   })"

definition syscall_file_write ::
  "io_env \<Rightarrow> fat_locals \<Rightarrow> int \<Rightarrow> ptr \<Rightarrow> u64 \<Rightarrow> 'a file_state_scheme \<Rightarrow> (int \<times> 'a file_state_scheme) option" where
  "syscall_file_write env loc fd buffer len s =
     (if bad_fd fd buffer s then Some (- 1, s)
      else if writable (file_at s fd) = 0 then Some (- 1, s)
      else if len = 0 then Some (0, s)
      else let f = file_at s fd; fsize = file_size (kfile f)
           in if offset f \<ge> fsize then Some (0, s)
              else let remaining = ucast fsize - ucast (offset f) :: u64;
                       to_write = (if len < remaining then len else remaining)
                   in do {
                     (all_data, s) \<leftarrow> kmalloc fsize s;
                     if all_data = NULL then Some (- 1, s)
                     else do {
                       (ok, s) \<leftarrow> fat32_read_file env loc (Some (kfile f)) all_data s;
                       if \<not> ok then do { s \<leftarrow> kfree all_data s; Some (- 1, s) }
                       else let s = s\<lparr>mem := memcpy (all_data + ucast (offset f)) buffer to_write (mem s)\<rparr>
                            in do {
                              (ok, s) \<leftarrow> fat32_write_file env loc (Some (kfile f)) all_data s;
                              if \<not> ok then do { s \<leftarrow> kfree all_data s; Some (- 1, s) }
                              else let s = set_file fd (\<lambda>f. f\<lparr>offset := offset f + ucast to_write\<rparr>) s
                                   in do { s \<leftarrow> kfree all_data s; Some (sint to_write, s) }
                            }
                     }
                   })"

definition syscall_file_close :: "int \<Rightarrow> 'a file_state_scheme \<Rightarrow> int \<times> 'a file_state_scheme" where
  "syscall_file_close fd s =
     (if fd < 0 \<or> fd \<ge> FILE_MAX_FD \<or> used (file_at s fd) = 0 then (- 1, s)
      else (0, set_file fd (\<lambda>_. zero_kernel_file) s))"

end
