(* ===== verification/File_Properties.thy ===== *)
theory File_Properties
  imports Syscall_File
begin

text \<open>
  Properties of the file system calls: the conversion of path names against its definition on
  strings, the file table, and reading and writing through the heap, the file system and the
  drive together.
\<close>

subsection \<open>Path names\<close>

text \<open>A name of at most 8 characters, optionally followed by a dot and at most 3 more, in 11 columns.\<close>

definition path_base :: "u8 list \<Rightarrow> u8 list" where "path_base xs = takeWhile (\<lambda>c. c \<noteq> 0x2E) xs"

definition path_ext :: "u8 list \<Rightarrow> u8 list" where "path_ext xs = drop 1 (dropWhile (\<lambda>c. c \<noteq> 0x2E) xs)"

definition is_fat83 :: "u8 list \<Rightarrow> bool" where
  "is_fat83 xs \<longleftrightarrow> path_base xs \<noteq> [] \<and> length (path_base xs) \<le> 8 \<and> length (path_ext xs) \<le> 3 \<and> 0x2E \<notin> set (path_ext xs)"

definition column :: "nat \<Rightarrow> u8 list \<Rightarrow> u8 list" where
  "column n xs = map to_upper_ascii xs @ replicate (n - length xs) 0x20"

definition fat83 :: "u8 list \<Rightarrow> u8 list" where
  "fat83 xs = column 8 (path_base xs) @ column 3 (path_ext xs)"

lemma column_update:
  assumes "length xs < n"
  shows "(column n xs @ ys)[length xs := to_upper_ascii c] = column n (xs @ [c]) @ ys"
proof -
  obtain k where "n - length xs = Suc k" using assms by (metis Suc_diff_Suc)
  then show ?thesis using assms by (simp add: column_def list_update_append)
qed

lemma length_column: "length xs \<le> n \<Longrightarrow> length (column n xs) = n"
  by (simp add: column_def)

lemma path_ext_loop:
  assumes "cstr m p xs" "length nm = 8" "length es \<le> 3"
  shows "if 0x2E \<notin> set xs \<and> length es + length xs \<le> 3
    then path_loop m p n (length es) True (nm @ column 3 es @ [0]) = (0 < n, nm @ column 3 (es @ xs) @ [0])
    else \<not> fst (path_loop m p n (length es) True (nm @ column 3 es @ [0]))"
  using assms
proof (induction xs arbitrary: p es)
  case Nil
  then show ?case by (simp add: path_loop.simps)
next
  case (Cons c xs)
  show ?case
  proof (cases "c = 0x2E \<or> 3 \<le> length es")
    case True
    then show ?thesis using Cons.prems by (auto simp: path_loop.simps [of m p])
  next
    case False
    let ?out = "nm @ column 3 es @ [0]"
    have "?out[8 + length es := to_upper_ascii c] = nm @ column 3 (es @ [c]) @ [0]"
      using False Cons.prems(2) column_update [of es 3 "[0]" c] by (simp add: list_update_append)
    then have "path_loop m p n (length es) True ?out =
        path_loop m (p + 1) n (length (es @ [c])) True (nm @ column 3 (es @ [c]) @ [0])"
      using False Cons.prems by (simp add: path_loop.simps [of m p])
    then show ?thesis using False Cons.prems Cons.IH [of "p + 1" "es @ [c]"] by auto
  qed
qed

lemma path_base_loop:
  assumes "cstr m p xs" "length ns \<le> 8"
  shows "if ns @ path_base xs \<noteq> [] \<and> length ns + length (path_base xs) \<le> 8 \<and> length (path_ext xs) \<le> 3 \<and> 0x2E \<notin> set (path_ext xs)
    then path_loop m p (length ns) 0 False (column 8 ns @ column 3 [] @ [0]) =
      (True, column 8 (ns @ path_base xs) @ column 3 (path_ext xs) @ [0])
    else \<not> fst (path_loop m p (length ns) 0 False (column 8 ns @ column 3 [] @ [0]))"
  using assms
proof (induction xs arbitrary: p ns)
  case Nil
  then show ?case by (simp add: path_loop.simps path_base_def path_ext_def)
next
  case (Cons c xs)
  let ?out = "column 8 ns @ column 3 [] @ [0]"
  show ?case
  proof (cases "c = 0x2E")
    case True
    then have "path_loop m p (length ns) 0 False ?out = path_loop m (p + 1) (length ns) (length []) True ?out"
      using Cons.prems by (simp add: path_loop.simps [of m p])
    moreover have "path_base (c # xs) = []" "path_ext (c # xs) = xs" using True by (simp_all add: path_base_def path_ext_def)
    ultimately show ?thesis
      using Cons.prems path_ext_loop [of m "p + 1" xs "column 8 ns" "[]" "length ns"] length_column [of ns 8]
      by (auto split: if_splits)
  next
    case False
    then have pb: "path_base (c # xs) = c # path_base xs" "path_ext (c # xs) = path_ext xs"
      by (simp_all add: path_base_def path_ext_def)
    show ?thesis
    proof (cases "8 \<le> length ns")
      case True
      then show ?thesis using False Cons.prems pb by (simp add: path_loop.simps [of m p])
    next
      case short: False
      have "path_loop m p (length ns) 0 False ?out =
          path_loop m (p + 1) (length (ns @ [c])) 0 False (column 8 (ns @ [c]) @ column 3 [] @ [0])"
        using False short Cons.prems column_update [of ns 8 "column 3 [] @ [0]" c] by (simp add: path_loop.simps [of m p])
      then show ?thesis using short Cons.prems Cons.IH [of "p + 1" "ns @ [c]"] by (auto simp: pb split: if_splits)
    qed
  qed
qed

lemma path_to_fat83_ok:
  assumes "path \<noteq> NULL" "cstr m path xs"
  shows "if is_fat83 xs then path_to_fat83 m path = (True, fat83 xs @ [0]) else \<not> fst (path_to_fat83 m path)"
proof -
  have "path_to_fat83 m path = path_loop m path (length []) 0 False (column 8 [] @ column 3 [] @ [0])"
    using assms(1) by (simp add: path_to_fat83_def column_def numeral_eq_Suc)
  then show ?thesis
    using path_base_loop [OF assms(2), of "[]"] by (auto simp: is_fat83_def fat83_def split: if_splits)
qed

text \<open>
  C30: \<open>path_to_fat83\<close>, a single pass over the characters with two counters, computes the
  8.3 name of the string: it accepts exactly the names with a base of 1 to 8 characters and at
  most one dot followed by at most 3 characters, and returns base and extension in upper case,
  each padded with spaces, with a terminator.
\<close>

theorem path_to_fat83_equiv:
  assumes "path \<noteq> NULL" "cstr m path xs"
  shows "if is_fat83 xs then path_to_fat83 m path = (True, fat83 xs @ [0]) else \<not> fst (path_to_fat83 m path)"
  using path_to_fat83_ok [OF assms] .

text \<open>Witness: the path "a.txt".\<close>

definition demo_path :: memory where
  "demo_path x = (if x = 1 then 0x61 else if x = 2 then 0x2E else if x = 3 then 0x74 else if x = 4 then 0x78
     else if x = 5 then 0x74 else 0)"

lemma demo_fat83: "cstr demo_path 1 [0x61, 0x2E, 0x74, 0x78, 0x74]" "is_fat83 [0x61, 0x2E, 0x74, 0x78, 0x74]"
  "fat83 [0x61, 0x2E, 0x74, 0x78, 0x74] = demo_name"
proof -
  have sp: "replicate 7 (0x20 :: u8) = [0x20, 0x20, 0x20, 0x20, 0x20, 0x20, 0x20]" by (simp add: numeral_eq_Suc)
  then show "cstr demo_path 1 [0x61, 0x2E, 0x74, 0x78, 0x74]" "is_fat83 [0x61, 0x2E, 0x74, 0x78, 0x74]"
    "fat83 [0x61, 0x2E, 0x74, 0x78, 0x74] = demo_name"
    by (simp_all add: demo_path_def is_fat83_def fat83_def path_base_def path_ext_def column_def to_upper_ascii_def demo_name_def)
qed

theorem path_to_fat83_equiv_witness: "path_to_fat83 demo_path 1 = (True, demo_name @ [0])"
  using path_to_fat83_equiv [OF _ demo_fat83(1)] demo_fat83(2,3) by simp

subsection \<open>The file table\<close>

definition files_ok :: "'a file_state_scheme \<Rightarrow> bool" where
  "files_ok s \<longleftrightarrow> length (g_files s) = 16"

lemma kernel_file_all: "f\<lparr>used := u, writable := w, kfile := fl, offset := n\<rparr> = \<lparr>used = u, writable = w, kfile = fl, offset = n\<rparr>"
  by (cases f) simp

lemma open_loop_find:
  "open_loop fl flags fd s =
     (case find (\<lambda>i. used (file_at s i) = 0) [fd..15] of None \<Rightarrow> (- 1, s)
      | Some i \<Rightarrow> (i, set_file i
          (\<lambda>_. \<lparr>used = 1, writable = (if flags AND 1 \<noteq> 0 then 1 else 0), kfile = fl, offset = 0\<rparr>) s))"
proof (induction fl flags fd s rule: open_loop.induct)
  case (1 fl flags fd s)
  show ?case
  proof (cases "fd < 16")
    case True
    then have u: "[fd..15] = fd # [fd + 1..15]" by (subst upto.simps) simp
    show ?thesis
    proof (cases "used (file_at s fd) = 0")
      case free: True
      then show ?thesis unfolding u by (simp add: open_loop.simps [of fl flags fd] True FILE_MAX_FD_def set_file_def kernel_file_all)
    next
      case False
      then have "open_loop fl flags fd s = open_loop fl flags (fd + 1) s"
        using True by (simp add: open_loop.simps [of fl flags fd] FILE_MAX_FD_def)
      then show ?thesis using 1 True False unfolding u by (simp only: FILE_MAX_FD_def find.simps if_False not_False_eq_True simp_thms)
    qed
  next
    case False
    then show ?thesis by (simp add: open_loop.simps [of fl flags fd] FILE_MAX_FD_def)
  qed
qed

lemma find_upto_None: "find P [0..n] = None \<longleftrightarrow> (\<forall>i. 0 \<le> i \<and> i \<le> n \<longrightarrow> \<not> P i)"
  by (auto simp: find_None_iff)

lemma find_upto_Some: "find P [0..n] = Some i \<Longrightarrow> 0 \<le> i \<and> i \<le> n \<and> P i \<and> (\<forall>j. 0 \<le> j \<and> j < i \<longrightarrow> \<not> P j)"
proof -
  assume "find P [0..n] = Some i"
  then obtain k where k: "k < nat (n + 1)" "P ([0..n] ! k)" "i = [0..n] ! k" "\<forall>l < k. \<not> P ([0..n] ! l)"
    by (auto simp: find_Some_iff)
  then have "i = int k" by simp
  moreover have "\<not> P j" if "0 \<le> j" "j < int k" for j using k(1) spec [OF k(4), of "nat j"] that by simp
  ultimately show ?thesis using k(1,2) by simp
qed

definition lowest_free :: "'a file_state_scheme \<Rightarrow> int option" where
  "lowest_free s = find (\<lambda>i. used (file_at s i) = 0) [0..15]"

lemma lowest_free_iff:
  "lowest_free s = None \<longleftrightarrow> (\<forall>i. 0 \<le> i \<and> i \<le> 15 \<longrightarrow> used (file_at s i) \<noteq> 0)"
  "lowest_free s = Some i \<Longrightarrow> 0 \<le> i \<and> i \<le> 15 \<and> used (file_at s i) = 0 \<and> (\<forall>j. 0 \<le> j \<and> j < i \<longrightarrow> used (file_at s j) \<noteq> 0)"
  unfolding lowest_free_def find_upto_None by (simp, drule find_upto_Some, simp)

lemma io_frame_file:
  fixes s s' :: "'a file_state_scheme"
  assumes "io_frame s s'"
  shows "g_files s' = g_files s" "bpb s' = bpb s" "heap_region s' = heap_region s"
    "heap_live s' L \<longleftrightarrow> heap_live (s\<lparr>mem := mem s'\<rparr>) L"
proof -
  have s': "s' = s\<lparr>mem := mem s', io_log := io_log s', serial_out := serial_out s'\<rparr>"
    using assms by (simp add: io_frame_iff)
  show "g_files s' = g_files s" "bpb s' = bpb s" "heap_region s' = heap_region s"
    by (subst s', simp add: heap_region_def)+
  show "heap_live s' L \<longleftrightarrow> heap_live (s\<lparr>mem := mem s'\<rparr>) L"
    by (subst s', rule heap_live_cong) simp_all
qed

text \<open>
  C29: \<open>syscall_file_open\<close> opens what the path names: it converts the path, looks the name up in
  the root directory, and puts the file found there with offset 0 into the lowest free slot of
  the table, whose number it returns; the file is writable if bit 0 of the flags is set. For a
  path that is no 8.3 name, a name without entry or a full table the result is -1 and the
  table stays as it is.
\<close>

theorem syscall_file_open_correct:
  fixes s :: "'a file_state_scheme"
  assumes "path \<noteq> NULL" "cstr (mem s) path xs"
    and "disk_ok env cap s p" "volume_ok (bpb s) cap"
    and "fat_chain p (bpb s) cap cs" "cs \<noteq> []" "hd cs = root_cluster (bpb s)"
    and "end_mark (fat_next p (bpb s) (last cs))" "length cs \<le> unat (max_clusters s)"
  shows "\<exists>s'. io_frame s s' \<and> disk_ok env cap s' p \<and> syscall_file_open env loc path flags s = Some
    (if is_fat83 xs
     then case dir_scan (fat83 xs) (entries (chain_bytes p (bpb s) cs)) of
         Hit e \<Rightarrow> (case lowest_free s of None \<Rightarrow> (- 1, s')
           | Some fd \<Rightarrow> (fd, set_file fd (\<lambda>_. \<lparr>used = 1, writable = (if flags AND 1 \<noteq> 0 then 1 else 0),
               kfile = entry_file e, offset = 0\<rparr>) s'))
       | _ \<Rightarrow> (- 1, s')
     else (- 1, s'))"
proof (cases "is_fat83 xs")
  case False
  then show ?thesis
    using path_to_fat83_ok [OF assms(1,2)] assms(3)
    by (intro exI [of _ s]) (auto simp: syscall_file_open_def io_frame_def split: prod.splits)
next
  case True
  then have pt: "path_to_fat83 (mem s) path = (True, fat83 xs @ [0])" and len: "length (fat83 xs) = 11"
    using path_to_fat83_ok [OF assms(1,2)] by (simp_all add: is_fat83_def fat83_def length_column)
  obtain s' where s': "disk_ok env cap s' p" "io_frame s s'"
    "fat32_find_file env loc (Some (fat83 xs @ [0])) (Some zero_file) s =
      (case dir_scan (fat83 xs) (entries (chain_bytes p (bpb s) cs)) of
         Hit e \<Rightarrow> Some (True, Some (entry_file e), s') | _ \<Rightarrow> Some (False, Some zero_file, s'))"
    using fat32_find_file_ok [OF assms(3-9), of "fat83 xs @ [0]" loc zero_file] len by auto
  have "lowest_free s' = lowest_free s" using io_frame_file(1) [OF s'(2)] by (simp add: lowest_free_def file_at_def)
  then show ?thesis
    using s' True
    by (intro exI [of _ s']) (auto simp: syscall_file_open_def pt open_loop_find lowest_free_def split: dir_result.splits option.splits)
qed

text \<open>Witness: the volume of the file system's properties, an empty table, and "a.txt" at address 1.\<close>

definition demo_files :: file_state where
  "demo_files = fat_state.extend (demo_state\<lparr>mem := demo_path\<rparr>) (file_state.fields (replicate 16 zero_kernel_file))"

lemma demo_files_sel: "mem demo_files = demo_path" "bpb demo_files = demo_bpb" "g_files demo_files = replicate 16 zero_kernel_file"
    "max_clusters demo_files = 128" "io_log demo_files = io_log demo_state"
    "heap_initialized demo_files = 0" "heap_lock demo_files = 0" "heap_start_page demo_files = 0"
  by (simp_all add: demo_files_def demo_state_def io_start_def file_state.defs fat_state.defs io_state.defs process_state.defs
      memory_state.defs static_process_state_def static_memory_state_def demo_bpb_def max_clusters_def)

lemma demo_files_disk: "disk_ok demo_env 100 demo_files demo_disk"
  using demo_disk_ok by (simp add: disk_ok_def demo_files_sel)

lemma demo_entry_file: "entry_file demo_entry = demo_file"
  by (simp add: entry_file_def demo_entry_def demo_name_def demo_file_def)

theorem syscall_file_open_correct_witness:
  "\<exists>s'. syscall_file_open demo_env demo_loc 1 1 demo_files = Some (0, s') \<and>
     file_at s' 0 = \<lparr>used = 1, writable = 1, kfile = demo_file, offset = 0\<rparr>"
proof -
  have free: "lowest_free demo_files = Some 0"
    unfolding lowest_free_def by (subst upto.simps) (simp add: file_at_def demo_files_sel zero_kernel_file_def)
  obtain s' where "io_frame demo_files s'" "syscall_file_open demo_env demo_loc 1 1 demo_files = Some (0, set_file 0
      (\<lambda>_. \<lparr>used = 1, writable = 1, kfile = demo_file, offset = 0\<rparr>) s')"
    using syscall_file_open_correct [OF _ _ demo_files_disk, of 1 "[0x61, 0x2E, 0x74, 0x78, 0x74]" "[2]" demo_loc 1]
      demo_fat83 demo_volume demo_root demo_scan demo_entry_file
    by (auto simp: demo_files_sel free demo_bpb_def)
  then show ?thesis
    using io_frame_file(1) [of demo_files s'] by (simp add: set_file_def file_at_def demo_files_sel)
qed

end
