(* ===== verification/File_Transfer.thy ===== *)
theory File_Transfer
  imports File_Properties
begin

text \<open>
  Reading and writing through an open file: \<open>syscall_file_read\<close> and \<open>syscall_file_write\<close> with the
  heap, the file system and the drive below them.
\<close>


















subsection \<open>Writing\<close>







end
