(* ===== verification/Paging.thy ===== *)
theory Paging
  imports Syscall_File
begin

text \<open>
  Paging (\<open>Kernel/Paging/Paging_Main.c\<close>, \<open>Paging.asm\<close>): the page tables are 8-byte entries in the
  byte memory, at the addresses the linker gives the static arrays; these are the argument
  \<open>pt\<close>. The control registers are fields of the state, and so is the translation buffer of
  the processor, which \<open>invlpg\<close> and a load of CR3 empty.
\<close>

record page_tables =
  pml4 :: ptr
  pdpt :: ptr
  pd :: ptr

record paging_state = file_state +
  cr0 :: u64
  cr3 :: u64
  cr4 :: u64
  tlb :: "u64 \<Rightarrow> u64 option"
  mmio_phys_base :: "u64 list"
  mmio_slots_used :: u32

definition GB :: u64 where "GB = 1024 * 1024 * 1024"
definition MB2 :: u64 where "MB2 = 2 * 1024 * 1024"
definition MAX_PDPT_ENTRIES :: u64 where "MAX_PDPT_ENTRIES = 64"
definition MMIO_WINDOW_BASE :: u64 where "MMIO_WINDOW_BASE = 0x00000000F0000000"
definition MMIO_WINDOW_SLOTS :: u32 where "MMIO_WINDOW_SLOTS = 16"
definition PAGE_PRESENT :: u64 where "PAGE_PRESENT = 1"
definition PAGE_RW :: u64 where "PAGE_RW = 2"
definition PAGE_USER :: u64 where "PAGE_USER = 4"
definition PAGE_PS :: u64 where "PAGE_PS = 0x80"

text \<open>The translation buffer is indexed by the number of the 2 MB page.\<close>

definition write_cr3 :: "u64 \<Rightarrow> 'a paging_state_scheme \<Rightarrow> 'a paging_state_scheme" where
  "write_cr3 v s = s\<lparr>cr3 := v, tlb := (\<lambda>_. None)\<rparr>"

definition enable_paging :: "'a paging_state_scheme \<Rightarrow> 'a paging_state_scheme" where
  "enable_paging s =
     (let s = s\<lparr>cr4 := cr4 s OR push_bit 5 1\<rparr>
      in s\<lparr>cr0 := cr0 s OR push_bit 31 1\<rparr>)"

definition invlpg_addr :: "u64 \<Rightarrow> 'a paging_state_scheme \<Rightarrow> 'a paging_state_scheme" where
  "invlpg_addr a s = s\<lparr>tlb := (tlb s)(drop_bit 21 a := None)\<rparr>"

text \<open>\<open>&pdpt[i]\<close>, \<open>pd[i]\<close> and \<open>&pd[i][j]\<close>.\<close>

definition pdpt_at :: "page_tables \<Rightarrow> u64 \<Rightarrow> ptr" where "pdpt_at pt i = pdpt pt + 8 * i"
definition pd_row :: "page_tables \<Rightarrow> u64 \<Rightarrow> ptr" where "pd_row pt i = pd pt + 4096 * i"
definition pd_at :: "page_tables \<Rightarrow> u64 \<Rightarrow> u64 \<Rightarrow> ptr" where "pd_at pt i j = pd_row pt i + 8 * j"

function mmio_find_loop :: "u64 \<Rightarrow> u32 \<Rightarrow> 'a paging_state_scheme \<Rightarrow> u32 option" where
  "mmio_find_loop phys_base i s =
     (if i < mmio_slots_used s
      then if mmio_phys_base s ! unat i = phys_base then Some i else mmio_find_loop phys_base (i + 1) s
      else None)"
  by pat_completeness auto
termination
  by (relation "measure (\<lambda>(phys_base, i, s). unat (mmio_slots_used s) - unat i)") (simp_all add: inc_measure)

declare mmio_find_loop.simps [simp del]

definition map_mmio_virt :: "page_tables \<Rightarrow> u64 \<Rightarrow> 'a paging_state_scheme \<Rightarrow> ptr \<times> 'a paging_state_scheme" where
  "map_mmio_virt pt phys_addr s =
     (if phys_addr < 4 * GB then (phys_addr, s)
      else let phys_base = phys_addr AND NOT (MB2 - 1); offset = phys_addr - phys_base
           in case mmio_find_loop phys_base 0 s of
             Some i \<Rightarrow> (MMIO_WINDOW_BASE + ucast i * MB2 + offset, s)
           | None \<Rightarrow>
             if mmio_slots_used s \<ge> MMIO_WINDOW_SLOTS
             then (NULL, msg ''[OS] [Memory] MMIO window exhausted'' s)
             else let virt_base = MMIO_WINDOW_BASE + ucast (mmio_slots_used s) * MB2;
                      pdpt_index = drop_bit 30 virt_base AND 0x1FF;
                      pd_index = drop_bit 21 virt_base AND 0x1FF
                  in if pdpt_index \<ge> MAX_PDPT_ENTRIES
                     then (NULL, msg ''[OS] [Memory] MMIO window index out of range'' s)
                     else let s = s\<lparr>mem := store64 (pdpt_at pt pdpt_index)
                                (pd_row pt pdpt_index OR PAGE_PRESENT OR PAGE_RW OR PAGE_USER) (mem s)\<rparr>;
                              s = s\<lparr>mem := store64 (pd_at pt pdpt_index pd_index)
                                (phys_base OR PAGE_PRESENT OR PAGE_RW OR PAGE_PS OR PAGE_USER) (mem s)\<rparr>;
                              s = invlpg_addr virt_base s;
                              s = s\<lparr>mmio_phys_base := (mmio_phys_base s)[unat (mmio_slots_used s) := phys_base]\<rparr>;
                              s = s\<lparr>mmio_slots_used := mmio_slots_used s + 1\<rparr>
                          in (virt_base + offset, s))"

function init_pd_loop :: "page_tables \<Rightarrow> u64 \<Rightarrow> u64 \<Rightarrow> u64 \<Rightarrow> memory \<Rightarrow> memory" where
  "init_pd_loop pt i base j m =
     (if j < 512
      then init_pd_loop pt i base (j + 1) (store64 (pd_at pt i j)
             ((base + j * MB2) OR PAGE_PRESENT OR PAGE_RW OR PAGE_PS OR PAGE_USER) m)
      else m)"
  by pat_completeness auto
termination
  by (relation "measure (\<lambda>(pt, i, base, j, m). unat (512 :: u64) - unat j)") (simp_all only: in_measure prod.case inc_measure, simp)

declare init_pd_loop.simps [simp del]

function init_pdpt_loop :: "page_tables \<Rightarrow> u64 \<Rightarrow> u64 \<Rightarrow> memory \<Rightarrow> memory" where
  "init_pdpt_loop pt required_entries i m =
     (if i < required_entries
      then let m = store64 (pdpt_at pt i) (pd_row pt i OR PAGE_PRESENT OR PAGE_RW OR PAGE_USER) m;
               base = i * GB
           in init_pdpt_loop pt required_entries (i + 1) (init_pd_loop pt i base 0 m)
      else m)"
  by pat_completeness auto
termination
  by (relation "measure (\<lambda>(pt, required_entries, i, m). unat required_entries - unat i)") (simp_all add: inc_measure)

declare init_pdpt_loop.simps [simp del]

definition init_paging :: "page_tables \<Rightarrow> u64 \<Rightarrow> u32 \<Rightarrow> 'a paging_state_scheme \<Rightarrow> 'a paging_state_scheme" where
  "init_paging pt framebuffer_base framebuffer_size s =
     (let s = msg ''[OS] [Memory] Start Initialize Paging.'' s;
          s = s\<lparr>mem := memset (pml4 pt) 0 (512 * 8) (mem s)\<rparr>;
          s = s\<lparr>mem := memset (pdpt pt) 0 (512 * 8) (mem s)\<rparr>;
          s = s\<lparr>mem := memset (pd pt) 0 (MAX_PDPT_ENTRIES * 512 * 8) (mem s)\<rparr>;
          s = s\<lparr>mmio_phys_base := replicate 16 0, mmio_slots_used := 0\<rparr>;
          fb_end = framebuffer_base + ucast framebuffer_size;
          min_required = 4 * GB;
          max_addr = (if fb_end > min_required then fb_end else min_required);
          required_entries = (max_addr + GB - 1) div GB;
          (required_entries, s) =
            (if required_entries > MAX_PDPT_ENTRIES
             then (MAX_PDPT_ENTRIES, msg ''[OS] [Memory] Warning: mapping limited to MAX_PDPT_ENTRIES.'' s)
             else (required_entries, s));
          s = serial_write_string ''[OS] [Memory] Mapping '' s;
          s = serial_write_uint64 required_entries s;
          s = msg '' GB of memory.'' s;
          s = s\<lparr>mem := store64 (pml4 pt) (pdpt pt OR PAGE_PRESENT OR PAGE_RW OR PAGE_USER) (mem s)\<rparr>;
          s = s\<lparr>mem := init_pdpt_loop pt required_entries 0 (mem s)\<rparr>;
          s = write_cr3 (pml4 pt) s;
          s = enable_paging s
      in msg ''[OS] [Memory] Success Initialize Paging.'' s)"

text \<open>
  \<open>paging_init_asm\<close> of \<open>Paging.asm\<close> maps the first gigabyte with tables of its own, which here are
  again given by \<open>pt\<close>. \<open>bss\<close> memory is zero when the kernel starts.
\<close>

function fill_pd :: "page_tables \<Rightarrow> u64 \<Rightarrow> memory \<Rightarrow> memory" where
  "fill_pd pt rcx m =
     (if rcx < 512
      then fill_pd pt (rcx + 1) (store64 (pd pt + rcx * 8) (push_bit 21 rcx OR (push_bit 7 1 OR 7)) m)
      else m)"
  by pat_completeness auto
termination
  by (relation "measure (\<lambda>(pt, rcx, m). unat (512 :: u64) - unat rcx)") (simp_all only: in_measure prod.case inc_measure, simp)

declare fill_pd.simps [simp del]

definition paging_init_asm :: "page_tables \<Rightarrow> 'a paging_state_scheme \<Rightarrow> 'a paging_state_scheme" where
  "paging_init_asm pt s =
     (let s = s\<lparr>mem := store64 (pml4 pt) (pdpt pt OR 7) (mem s)\<rparr>;
          s = s\<lparr>mem := store64 (pdpt pt) (pd pt OR 7) (mem s)\<rparr>;
          s = s\<lparr>cr4 := cr4 s OR push_bit 5 1\<rparr>;
          s = s\<lparr>mem := fill_pd pt 0 (mem s)\<rparr>;
          s = write_cr3 (pml4 pt) s
      in s\<lparr>cr0 := cr0 s OR push_bit 31 1\<rparr>)"

subsection \<open>The translation the processor performs\<close>

text \<open>
  The walk through the four levels of tables, as the architecture defines it for 4 KB, 2 MB
  and 1 GB pages; \<open>None\<close> is a page fault.
\<close>

definition table_base :: "u64 \<Rightarrow> ptr" where "table_base e = e AND push_bit 12 (mask 40)"

definition level_index :: "nat \<Rightarrow> u64 \<Rightarrow> u64" where "level_index k va = take_bit 9 (drop_bit k va)"

definition walk :: "memory \<Rightarrow> u64 \<Rightarrow> u64 \<Rightarrow> u64 option" where
  "walk m root va =
     (let e4 = load64 m (table_base root + 8 * level_index 39 va)
      in if drop_bit 48 va \<noteq> 0 \<or> \<not> bit e4 0 then None
         else let e3 = load64 m (table_base e4 + 8 * level_index 30 va)
              in if \<not> bit e3 0 then None
                 else if bit e3 7 then Some ((e3 AND push_bit 30 (mask 22)) OR take_bit 30 va)
                 else let e2 = load64 m (table_base e3 + 8 * level_index 21 va)
                      in if \<not> bit e2 0 then None
                         else if bit e2 7 then Some ((e2 AND push_bit 21 (mask 31)) OR take_bit 21 va)
                         else let e1 = load64 m (table_base e2 + 8 * level_index 12 va)
                              in if \<not> bit e1 0 then None else Some (table_base e1 OR take_bit 12 va))"

text \<open>A translation from the buffer when it has one, and otherwise from the tables.\<close>

definition mmu :: "'a paging_state_scheme \<Rightarrow> u64 \<Rightarrow> u64 option" where
  "mmu s va = (case tlb s (drop_bit 21 va) of
     Some b \<Rightarrow> Some (push_bit 21 b OR take_bit 21 va)
   | None \<Rightarrow> walk (mem s) (cr3 s) va)"

definition tlb_coherent :: "'a paging_state_scheme \<Rightarrow> bool" where
  "tlb_coherent s \<longleftrightarrow> (\<forall>va b. tlb s (drop_bit 21 va) = Some b \<longrightarrow>
     walk (mem s) (cr3 s) va = Some (push_bit 21 b OR take_bit 21 va))"

end
