(* ===== verification/PCI.thy ===== *)
theory PCI
  imports Disk_IO
begin

text \<open>
  Access to the PCI configuration space and the scan of the bus (\<open>Kernel/Drivers/PCI/PCI_Main.c\<close>),
  over the port accesses of \<open>Kernel/IO/IO_Main.c\<close>. The devices on the bus are the argument \<open>env\<close>.
\<close>

definition PCI_CONFIG_ADDRESS :: u16 where "PCI_CONFIG_ADDRESS = 0xCF8"
definition PCI_CONFIG_DATA :: u16 where "PCI_CONFIG_DATA = 0xCFC"

definition pci_address :: "u8 \<Rightarrow> u8 \<Rightarrow> u8 \<Rightarrow> u8 \<Rightarrow> u32" where
  "pci_address bus device func offset =
     push_bit 31 1 OR push_bit 16 (ucast bus) OR push_bit 11 (ucast device) OR
     push_bit 8 (ucast func) OR (ucast offset AND 0xFC)"

definition pci_read_config ::
  "io_env \<Rightarrow> u8 \<Rightarrow> u8 \<Rightarrow> u8 \<Rightarrow> u8 \<Rightarrow> 'a io_state_scheme \<Rightarrow> u32 \<times> 'a io_state_scheme" where
  "pci_read_config env bus device func offset s =
     (let address = pci_address bus device func offset;
          s = outl PCI_CONFIG_ADDRESS address s
      in inl env PCI_CONFIG_DATA s)"

definition pci_write_config ::
  "u8 \<Rightarrow> u8 \<Rightarrow> u8 \<Rightarrow> u8 \<Rightarrow> u32 \<Rightarrow> 'a io_state_scheme \<Rightarrow> 'a io_state_scheme" where
  "pci_write_config bus device func offset val s =
     (let address = pci_address bus device func offset;
          s = outl PCI_CONFIG_ADDRESS address s
      in outl PCI_CONFIG_DATA val s)"

record pci_device =
  bus :: u8
  device :: u8
  func :: u8
  vendor_id :: u16
  device_id :: u16
  class_code :: u8
  sub_class :: u8
  prog_if :: u8
  bar :: "u32 list"

function pci_read_bars :: "io_env \<Rightarrow> nat \<Rightarrow> pci_device \<Rightarrow> 'a io_state_scheme \<Rightarrow> pci_device \<times> 'a io_state_scheme" where
  "pci_read_bars env i dev s =
     (if i < 6
      then let (v, s) = pci_read_config env (bus dev) (device dev) (func dev) (of_nat (0x10 + i * 4)) s
           in pci_read_bars env (i + 1) (dev\<lparr>bar := (bar dev)[i := v]\<rparr>) s
      else (dev, s))"
  by pat_completeness auto
termination
  by (relation "measure (\<lambda>(env, i, dev, s). 6 - i)") auto

declare pci_read_bars.simps [simp del]

function print_bars_loop :: "pci_device \<Rightarrow> nat \<Rightarrow> 'a machine_scheme \<Rightarrow> 'a machine_scheme" where
  "print_bars_loop dev i s =
     (if i < 6
      then let s = serial_write_string ''  BAR'' s;
               s = serial_write_uint32 (of_nat i) s;
               s = serial_write_string '': 0x'' s;
               s = serial_write_uint32 (bar dev ! i) s;
               s = serial_write_char (CHR 0x0A) s
           in print_bars_loop dev (i + 1) s
      else s)"
  by pat_completeness auto
termination
  by (relation "measure (\<lambda>(dev, i, s). 6 - i)") auto

declare print_bars_loop.simps [simp del]

definition print_device :: "pci_device \<Rightarrow> 'a machine_scheme \<Rightarrow> 'a machine_scheme" where
  "print_device dev s =
     (let s = serial_write_string ''Bus '' s;
          s = serial_write_uint32 (ucast (bus dev)) s;
          s = serial_write_string '' Device '' s;
          s = serial_write_uint32 (ucast (device dev)) s;
          s = serial_write_string '' Func '' s;
          s = serial_write_uint32 (ucast (func dev)) s;
          s = serial_write_char (CHR 0x0A) s;
          s = serial_write_string ''  VendorID: 0x'' s;
          s = serial_write_uint16 (vendor_id dev) s;
          s = serial_write_string '' DeviceID: 0x'' s;
          s = serial_write_uint16 (device_id dev) s;
          s = serial_write_char (CHR 0x0A) s;
          s = serial_write_string ''  Class: 0x'' s;
          s = serial_write_uint32 (ucast (class_code dev)) s;
          s = serial_write_string '' Subclass: 0x'' s;
          s = serial_write_uint32 (ucast (sub_class dev)) s;
          s = serial_write_string '' ProgIF: 0x'' s;
          s = serial_write_uint32 (ucast (prog_if dev)) s;
          s = serial_write_char (CHR 0x0A) s
      in print_bars_loop dev 0 s)"

text \<open>
  The three nested loops of \<open>pci_scan_bus_serial\<close>. A \<open>break\<close> of the innermost one returns to the
  loop over the devices. The array \<open>bar\<close> of the local structure starts with arbitrary contents
  and is filled before it is used.
\<close>

function scan_func_loop :: "io_env \<Rightarrow> u8 \<Rightarrow> u8 \<Rightarrow> u8 \<Rightarrow> 'a io_state_scheme \<Rightarrow> 'a io_state_scheme" where
  "scan_func_loop env b d f s =
     (if f < 8
      then let (vendor_device, s) = pci_read_config env b d f 0x00 s;
               vid = ucast (vendor_device AND 0xFFFF) :: u16;
               did = ucast (drop_bit 16 vendor_device AND 0xFFFF) :: u16
           in if vid = 0xFFFF then (if f = 0 then s else scan_func_loop env b d (f + 1) s)
              else
                let (class_reg, s) = pci_read_config env b d f 0x08 s;
                    dev = \<lparr>bus = b, device = d, func = f, vendor_id = vid, device_id = did,
                      class_code = ucast (drop_bit 24 class_reg AND 0xFF), sub_class = ucast (drop_bit 16 class_reg AND 0xFF),
                      prog_if = ucast (drop_bit 8 class_reg AND 0xFF), bar = replicate 6 0\<rparr>;
                    (dev, s) = pci_read_bars env 0 dev s;
                    s = print_device dev s
                in if f = 0
                   then let (header_type, s) = pci_read_config env b d f 0x0C s
                        in if drop_bit 16 header_type AND 0x80 = 0 then s else scan_func_loop env b d (f + 1) s
                   else scan_func_loop env b d (f + 1) s
      else s)"
  by pat_completeness auto
termination
  by (relation "measure (\<lambda>(env, b, d, f, s). unat (8 :: u8) - unat f)") (auto simp only: in_measure prod.case intro!: inc_measure)

declare scan_func_loop.simps [simp del]

function scan_device_loop :: "io_env \<Rightarrow> u8 \<Rightarrow> u8 \<Rightarrow> 'a io_state_scheme \<Rightarrow> 'a io_state_scheme" where
  "scan_device_loop env b d s =
     (if d < 32 then scan_device_loop env b (d + 1) (scan_func_loop env b d 0 s) else s)"
  by pat_completeness auto
termination
  by (relation "measure (\<lambda>(env, b, d, s). unat (32 :: u8) - unat d)") (auto simp only: in_measure prod.case intro!: inc_measure)

declare scan_device_loop.simps [simp del]

function scan_bus_loop :: "io_env \<Rightarrow> u16 \<Rightarrow> 'a io_state_scheme \<Rightarrow> 'a io_state_scheme" where
  "scan_bus_loop env b s =
     (if b < 256 then scan_bus_loop env (b + 1) (scan_device_loop env (ucast b) 0 s) else s)"
  by pat_completeness auto
termination
  by (relation "measure (\<lambda>(env, b, s). unat (256 :: u16) - unat b)") (auto simp only: in_measure prod.case intro!: inc_measure)

declare scan_bus_loop.simps [simp del]

definition pci_scan_bus_serial :: "io_env \<Rightarrow> 'a io_state_scheme \<Rightarrow> 'a io_state_scheme" where
  "pci_scan_bus_serial env s = scan_bus_loop env 0 s"

end
