(* ===== verification/VirtIO_GPU.thy ===== *)
theory VirtIO_GPU
  imports Paging PCI Heap_Region
begin

text \<open>
  The driver of the virtio graphics device (\<open>Kernel/Drivers/Display/VirtIO/VirtIO.c\<close>) and the
  display interface above it (\<open>Display_Main.c\<close>). The device is not part of the program: the
  argument \<open>dev\<close> says, for every history of accesses to its registers, what the newest access
  reads, and what the device has written to memory by the time the driver looks at the used
  ring. The structures that the C functions have on the stack are given by \<open>loc\<close>: the addresses
  of the command and response of each command, and the values that the two structures of
  \<open>virtio_gpu_init\<close> have before they are filled.
\<close>

subsection \<open>Device registers\<close>

datatype mmio_event = MRead nat ptr | MWrite nat ptr u64 | Poll ptr

record gpu_device =
  reg_value :: "mmio_event list \<Rightarrow> u64"
  dma :: "mmio_event list \<Rightarrow> memory \<Rightarrow> memory"

record virtio_gpu_pci =
  gpu_bus :: u8
  gpu_dev :: u8
  gpu_func :: u8
  bar_addr :: "u64 list"
  bar_is_mem :: "u8 list"
  irq :: u32

record virtio_pci_transport =
  common_cfg :: ptr
  notify_base :: ptr
  device_cfg :: ptr
  notify_off_multiplier :: u32

record virtqueue =
  queue_index :: u16
  queue_size :: u16
  desc :: ptr
  avail :: ptr
  used_ring :: ptr
  avail_idx :: u16
  used_idx_seen :: u16
  notify_addr :: ptr

record gpu_locals =
  cmd_at :: "u32 \<Rightarrow> ptr"
  resp_at :: "u32 \<Rightarrow> ptr"
  gpu_init :: virtio_gpu_pci
  vq_init :: virtqueue

record gpu_state = paging_state +
  mmio_log :: "mmio_event list"
  g_gpu_ready :: int
  g_gpu_width :: u32
  g_gpu_height :: u32
  g_gpu_fb :: ptr
  g_gpu_controlq :: virtqueue

definition VIRTIO_VENDOR_ID :: u16 where "VIRTIO_VENDOR_ID = 0x1AF4"
definition VIRTIO_GPU_DEVICE_ID :: u16 where "VIRTIO_GPU_DEVICE_ID = 0x1050"
definition PCI_CAP_ID_VENDOR :: u8 where "PCI_CAP_ID_VENDOR = 0x09"
definition VIRTIO_PCI_CAP_COMMON_CFG :: u8 where "VIRTIO_PCI_CAP_COMMON_CFG = 1"
definition VIRTIO_PCI_CAP_NOTIFY_CFG :: u8 where "VIRTIO_PCI_CAP_NOTIFY_CFG = 2"
definition VIRTIO_PCI_CAP_DEVICE_CFG :: u8 where "VIRTIO_PCI_CAP_DEVICE_CFG = 4"
definition VIRTIO_STATUS_ACKNOWLEDGE :: u8 where "VIRTIO_STATUS_ACKNOWLEDGE = 0x01"
definition VIRTIO_STATUS_DRIVER :: u8 where "VIRTIO_STATUS_DRIVER = 0x02"
definition VIRTIO_STATUS_DRIVER_OK :: u8 where "VIRTIO_STATUS_DRIVER_OK = 0x04"
definition VIRTIO_STATUS_FEATURES_OK :: u8 where "VIRTIO_STATUS_FEATURES_OK = 0x08"
definition VIRTIO_STATUS_FAILED :: u8 where "VIRTIO_STATUS_FAILED = 0x80"
definition VIRTIO_F_VERSION_1 :: u32 where "VIRTIO_F_VERSION_1 = 1"
definition VIRTQ_DESC_F_NEXT :: u16 where "VIRTQ_DESC_F_NEXT = 1"
definition VIRTQ_DESC_F_WRITE :: u16 where "VIRTQ_DESC_F_WRITE = 2"
definition VIRTIO_GPU_CMD_GET_DISPLAY_INFO :: u32 where "VIRTIO_GPU_CMD_GET_DISPLAY_INFO = 0x0100"
definition VIRTIO_GPU_CMD_RESOURCE_CREATE_2D :: u32 where "VIRTIO_GPU_CMD_RESOURCE_CREATE_2D = 0x0101"
definition VIRTIO_GPU_CMD_SET_SCANOUT :: u32 where "VIRTIO_GPU_CMD_SET_SCANOUT = 0x0103"
definition VIRTIO_GPU_CMD_RESOURCE_FLUSH :: u32 where "VIRTIO_GPU_CMD_RESOURCE_FLUSH = 0x0104"
definition VIRTIO_GPU_CMD_TRANSFER_TO_HOST_2D :: u32 where "VIRTIO_GPU_CMD_TRANSFER_TO_HOST_2D = 0x0105"
definition VIRTIO_GPU_CMD_RESOURCE_ATTACH_BACKING :: u32 where "VIRTIO_GPU_CMD_RESOURCE_ATTACH_BACKING = 0x0106"
definition VIRTIO_GPU_RESP_OK_NODATA :: u32 where "VIRTIO_GPU_RESP_OK_NODATA = 0x1100"
definition VIRTIO_GPU_RESP_OK_DISPLAY_INFO :: u32 where "VIRTIO_GPU_RESP_OK_DISPLAY_INFO = 0x1101"
definition VIRTIO_GPU_FORMAT_B8G8R8X8_UNORM :: u32 where "VIRTIO_GPU_FORMAT_B8G8R8X8_UNORM = 1"
definition GPU_RESOURCE_ID :: u32 where "GPU_RESOURCE_ID = 1"
definition GPU_SCANOUT_ID :: u32 where "GPU_SCANOUT_ID = 0"
definition VIRTIO_MMIO_TIMEOUT :: u32 where "VIRTIO_MMIO_TIMEOUT = 10000000"

definition align_up_u32 :: "u32 \<Rightarrow> u32 \<Rightarrow> u32" where
  "align_up_u32 val align = (val + align - 1) AND NOT (align - 1)"

definition mmio_read :: "gpu_device \<Rightarrow> nat \<Rightarrow> ptr \<Rightarrow> 'a gpu_state_scheme \<Rightarrow> u64 \<times> 'a gpu_state_scheme" where
  "mmio_read dev n a s = (let l = MRead n a # mmio_log s in (reg_value dev l, s\<lparr>mmio_log := l\<rparr>))"

definition mmio_write :: "nat \<Rightarrow> ptr \<Rightarrow> u64 \<Rightarrow> 'a gpu_state_scheme \<Rightarrow> 'a gpu_state_scheme" where
  "mmio_write n a v s = s\<lparr>mmio_log := MWrite n a v # mmio_log s\<rparr>"

definition common_read8 :: "gpu_device \<Rightarrow> ptr \<Rightarrow> u32 \<Rightarrow> 'a gpu_state_scheme \<Rightarrow> u8 \<times> 'a gpu_state_scheme" where
  "common_read8 dev common off s = (let (v, s) = mmio_read dev 1 (common + ucast off) s in (ucast v, s))"

definition common_read16 :: "gpu_device \<Rightarrow> ptr \<Rightarrow> u32 \<Rightarrow> 'a gpu_state_scheme \<Rightarrow> u16 \<times> 'a gpu_state_scheme" where
  "common_read16 dev common off s = (let (v, s) = mmio_read dev 2 (common + ucast off) s in (ucast v, s))"

definition common_read32 :: "gpu_device \<Rightarrow> ptr \<Rightarrow> u32 \<Rightarrow> 'a gpu_state_scheme \<Rightarrow> u32 \<times> 'a gpu_state_scheme" where
  "common_read32 dev common off s = (let (v, s) = mmio_read dev 4 (common + ucast off) s in (ucast v, s))"

definition common_write8 :: "ptr \<Rightarrow> u32 \<Rightarrow> u8 \<Rightarrow> 'a gpu_state_scheme \<Rightarrow> 'a gpu_state_scheme" where
  "common_write8 common off v s = mmio_write 1 (common + ucast off) (ucast v) s"

definition common_write16 :: "ptr \<Rightarrow> u32 \<Rightarrow> u16 \<Rightarrow> 'a gpu_state_scheme \<Rightarrow> 'a gpu_state_scheme" where
  "common_write16 common off v s = mmio_write 2 (common + ucast off) (ucast v) s"

definition common_write32 :: "ptr \<Rightarrow> u32 \<Rightarrow> u32 \<Rightarrow> 'a gpu_state_scheme \<Rightarrow> 'a gpu_state_scheme" where
  "common_write32 common off v s = mmio_write 4 (common + ucast off) (ucast v) s"

definition common_write64 :: "ptr \<Rightarrow> u32 \<Rightarrow> u64 \<Rightarrow> 'a gpu_state_scheme \<Rightarrow> 'a gpu_state_scheme" where
  "common_write64 common off v s = mmio_write 8 (common + ucast off) v s"

subsection \<open>Finding the device\<close>

definition pci_cfg_read8 :: "io_env \<Rightarrow> u8 \<Rightarrow> u8 \<Rightarrow> u8 \<Rightarrow> u8 \<Rightarrow> 'a io_state_scheme \<Rightarrow> u8 \<times> 'a io_state_scheme" where
  "pci_cfg_read8 env b d f off s =
     (let (v, s) = pci_read_config env b d f (off AND 0xFC) s
      in (ucast (drop_bit (unat (off AND 0x3) * 8) v AND 0xFF), s))"

definition pci_cfg_read16 :: "io_env \<Rightarrow> u8 \<Rightarrow> u8 \<Rightarrow> u8 \<Rightarrow> u8 \<Rightarrow> 'a io_state_scheme \<Rightarrow> u16 \<times> 'a io_state_scheme" where
  "pci_cfg_read16 env b d f off s =
     (let (v, s) = pci_read_config env b d f (off AND 0xFC) s
      in (ucast (drop_bit (unat (off AND 0x2) * 8) v AND 0xFFFF), s))"

definition pci_cfg_read32 :: "io_env \<Rightarrow> u8 \<Rightarrow> u8 \<Rightarrow> u8 \<Rightarrow> u8 \<Rightarrow> 'a io_state_scheme \<Rightarrow> u32 \<times> 'a io_state_scheme" where
  "pci_cfg_read32 env b d f off s = pci_read_config env b d f (off AND 0xFC) s"

definition pci_cfg_write16 :: "io_env \<Rightarrow> u8 \<Rightarrow> u8 \<Rightarrow> u8 \<Rightarrow> u8 \<Rightarrow> u16 \<Rightarrow> 'a io_state_scheme \<Rightarrow> 'a io_state_scheme" where
  "pci_cfg_write16 env b d f off val s =
     (let aligned = off AND 0xFC;
          (old, s) = pci_read_config env b d f aligned s;
          shift = unat (off AND 0x2) * 8;
          msk = push_bit shift 0xFFFF;
          merged = (old AND NOT msk) OR push_bit shift (ucast val)
      in pci_write_config b d f aligned merged s)"

text \<open>
  The arrays of six base addresses are lists of length 6. The loop moves on by two registers
  after a 64-bit address, so the entry of its upper half keeps what it had.
\<close>

function read_bar_loop ::
  "io_env \<Rightarrow> u8 \<Rightarrow> u8 \<Rightarrow> u8 \<Rightarrow> nat \<Rightarrow> u64 list \<Rightarrow> u8 list \<Rightarrow> 'a io_state_scheme \<Rightarrow> u64 list \<times> u8 list \<times> 'a io_state_scheme" where
  "read_bar_loop env b d f i out_bar out_is_mem s =
     (if i < 6
      then let (v, s) = pci_cfg_read32 env b d f (of_nat (0x10 + i * 4)) s;
               out_bar = out_bar[i := 0];
               out_is_mem = out_is_mem[i := 0]
           in if v = 0 \<or> v = 0xFFFFFFFF then read_bar_loop env b d f (i + 1) out_bar out_is_mem s
              else if v AND 1 \<noteq> 0 then read_bar_loop env b d f (i + 1) out_bar out_is_mem s
              else let out_is_mem = out_is_mem[i := 1]
                   in if drop_bit 1 v AND 3 = 2 \<and> i < 5
                      then let (bar_hi, s) = pci_cfg_read32 env b d f (of_nat (0x10 + (i + 1) * 4)) s
                           in read_bar_loop env b d f (i + 2)
                                (out_bar[i := push_bit 32 (ucast bar_hi) OR ucast (v AND NOT 0xF)]) out_is_mem s
                      else read_bar_loop env b d f (i + 1) (out_bar[i := ucast (v AND NOT 0xF)]) out_is_mem s
      else (out_bar, out_is_mem, s))"
  by pat_completeness auto
termination
  by (relation "measure (\<lambda>(env, b, d, f, i, out_bar, out_is_mem, s). 6 - i)") auto

declare read_bar_loop.simps [simp del]

definition pci_read_bar_addrs ::
  "io_env \<Rightarrow> u8 \<Rightarrow> u8 \<Rightarrow> u8 \<Rightarrow> u64 list \<Rightarrow> u8 list \<Rightarrow> 'a io_state_scheme \<Rightarrow> u64 list \<times> u8 list \<times> 'a io_state_scheme" where
  "pci_read_bar_addrs env b d f out_bar out_is_mem s = read_bar_loop env b d f 0 out_bar out_is_mem s"

text \<open>
  The search; \<open>init\<close> holds what the caller's structure has before. The loop over the functions
  of a device ends with the device found, or with \<open>None\<close> after its last function or a \<open>break\<close>.
\<close>

function find_func_loop ::
  "io_env \<Rightarrow> virtio_gpu_pci \<Rightarrow> u8 \<Rightarrow> u8 \<Rightarrow> u8 \<Rightarrow> 'a io_state_scheme \<Rightarrow> virtio_gpu_pci option \<times> 'a io_state_scheme" where
  "find_func_loop env init b d f s =
     (if f < 8
      then let (vd, s) = pci_read_config env b d f 0x00 s;
               vid = ucast (vd AND 0xFFFF) :: u16;
               did = ucast (drop_bit 16 vd AND 0xFFFF) :: u16
           in if vid = 0xFFFF then (if f = 0 then (None, s) else find_func_loop env init b d (f + 1) s)
              else if vid = VIRTIO_VENDOR_ID \<and> did = VIRTIO_GPU_DEVICE_ID
              then let (line, s) = pci_cfg_read8 env b d f 0x3C s;
                       (addrs, is_mem, s) = pci_read_bar_addrs env b d f (bar_addr init) (bar_is_mem init) s
                   in (Some \<lparr>gpu_bus = b, gpu_dev = d, gpu_func = f, bar_addr = addrs, bar_is_mem = is_mem, irq = ucast line\<rparr>, s)
              else if f = 0
                   then let (header_type, s) = pci_read_config env b d f 0x0C s
                        in if drop_bit 16 header_type AND 0x80 = 0 then (None, s) else find_func_loop env init b d (f + 1) s
                   else find_func_loop env init b d (f + 1) s
      else (None, s))"
  by pat_completeness auto
termination
  by (relation "measure (\<lambda>(env, init, b, d, f, s). unat (8 :: u8) - unat f)") (auto simp only: in_measure prod.case intro!: inc_measure)

declare find_func_loop.simps [simp del]

function find_device_loop ::
  "io_env \<Rightarrow> virtio_gpu_pci \<Rightarrow> u8 \<Rightarrow> u8 \<Rightarrow> 'a io_state_scheme \<Rightarrow> virtio_gpu_pci option \<times> 'a io_state_scheme" where
  "find_device_loop env init b d s =
     (if d < 32
      then case find_func_loop env init b d 0 s of (Some gpu, s) \<Rightarrow> (Some gpu, s) | (None, s) \<Rightarrow> find_device_loop env init b (d + 1) s
      else (None, s))"
  by pat_completeness auto
termination
  by (relation "measure (\<lambda>(env, init, b, d, s). unat (32 :: u8) - unat d)") (auto simp only: in_measure prod.case intro!: inc_measure)

declare find_device_loop.simps [simp del]

function find_bus_loop ::
  "io_env \<Rightarrow> virtio_gpu_pci \<Rightarrow> u16 \<Rightarrow> 'a io_state_scheme \<Rightarrow> virtio_gpu_pci option \<times> 'a io_state_scheme" where
  "find_bus_loop env init b s =
     (if b < 256
      then case find_device_loop env init (ucast b) 0 s of (Some gpu, s) \<Rightarrow> (Some gpu, s) | (None, s) \<Rightarrow> find_bus_loop env init (b + 1) s
      else (None, s))"
  by pat_completeness auto
termination
  by (relation "measure (\<lambda>(env, init, b, s). unat (256 :: u16) - unat b)") (auto simp only: in_measure prod.case intro!: inc_measure)

declare find_bus_loop.simps [simp del]

definition find_virtio_gpu ::
  "io_env \<Rightarrow> virtio_gpu_pci \<Rightarrow> 'a io_state_scheme \<Rightarrow> virtio_gpu_pci option \<times> 'a io_state_scheme" where
  "find_virtio_gpu env init s = find_bus_loop env init 0 s"

end
