(* ===== verification/GPU_Driver.thy ===== *)
theory GPU_Driver
  imports VirtIO_GPU
begin

text \<open>
  The virtio graphics driver, continued: the capabilities of the device, its initialisation, the
  control queue, the graphics commands, and drawing into the framebuffer.
\<close>

subsection \<open>Capabilities and initialisation\<close>

text \<open>One vendor capability; false when its registers cannot be mapped.\<close>

definition read_vendor_cap ::
  "io_env \<Rightarrow> page_tables \<Rightarrow> virtio_gpu_pci \<Rightarrow> u8 \<Rightarrow> virtio_pci_transport \<Rightarrow> 'a gpu_state_scheme \<Rightarrow>
     bool \<times> virtio_pci_transport \<times> 'a gpu_state_scheme" where
  "read_vendor_cap env pt gpu cap t s =
     (let b = gpu_bus gpu; d = gpu_dev gpu; f = gpu_func gpu;
          (cap_len, s) = pci_cfg_read8 env b d f (cap + 2) s;
          (cfg_type, s) = pci_cfg_read8 env b d f (cap + 3) s;
          (bar_no, s) = pci_cfg_read8 env b d f (cap + 4) s;
          (id, s) = pci_cfg_read8 env b d f (cap + 5) s;
          (off, s) = pci_cfg_read32 env b d f (cap + 8) s;
          (len, s) = pci_cfg_read32 env b d f (cap + 12) s
      in if bar_no < 6 \<and> bar_is_mem gpu ! unat bar_no \<noteq> 0 \<and> bar_addr gpu ! unat bar_no \<noteq> 0
         then let phys = bar_addr gpu ! unat bar_no + ucast off;
                  (base, s) = map_mmio_virt pt phys s
              in if base = NULL then (False, t, s)
                 else if cfg_type = VIRTIO_PCI_CAP_COMMON_CFG then (True, t\<lparr>common_cfg := base\<rparr>, s)
                 else if cfg_type = VIRTIO_PCI_CAP_NOTIFY_CFG
                 then let (mult, s) = pci_cfg_read32 env b d f (cap + 16) s
                      in (True, t\<lparr>notify_base := base, notify_off_multiplier := mult\<rparr>, s)
                 else if cfg_type = VIRTIO_PCI_CAP_DEVICE_CFG then (True, t\<lparr>device_cfg := base\<rparr>, s)
                 else (True, t, s)
         else (True, t, s))"

function find_caps_loop ::
  "io_env \<Rightarrow> page_tables \<Rightarrow> virtio_gpu_pci \<Rightarrow> u8 \<Rightarrow> u32 \<Rightarrow> virtio_pci_transport \<Rightarrow> 'a gpu_state_scheme \<Rightarrow>
     bool \<times> virtio_pci_transport \<times> 'a gpu_state_scheme" where
  "find_caps_loop env pt gpu cap guard t s =
     (if cap \<noteq> 0 \<and> cap \<ge> 0x40 \<and> guard < 64
      then let (cap_id, s) = pci_cfg_read8 env (gpu_bus gpu) (gpu_dev gpu) (gpu_func gpu) cap s;
               (cap_next, s) = pci_cfg_read8 env (gpu_bus gpu) (gpu_dev gpu) (gpu_func gpu) (cap + 1) s;
               (ok, t, s) = (if cap_id = PCI_CAP_ID_VENDOR then read_vendor_cap env pt gpu cap t s else (True, t, s))
           in if \<not> ok then (False, t, s) else find_caps_loop env pt gpu cap_next (guard + 1) t s
      else (common_cfg t \<noteq> NULL \<and> notify_base t \<noteq> NULL, t, s))"
  by pat_completeness auto
termination
  by (relation "measure (\<lambda>(env, pt, gpu, cap, guard, t, s). unat (64 :: u32) - unat guard)") (auto simp only: in_measure prod.case intro!: inc_measure)

declare find_caps_loop.simps [simp del]

definition virtio_pci_find_caps ::
  "io_env \<Rightarrow> page_tables \<Rightarrow> virtio_gpu_pci \<Rightarrow> 'a gpu_state_scheme \<Rightarrow> bool \<times> virtio_pci_transport \<times> 'a gpu_state_scheme" where
  "virtio_pci_find_caps env pt gpu s =
     (let t = \<lparr>common_cfg = NULL, notify_base = NULL, device_cfg = NULL, notify_off_multiplier = 0\<rparr>;
          (status, s) = pci_cfg_read16 env (gpu_bus gpu) (gpu_dev gpu) (gpu_func gpu) 0x06 s
      in if status AND push_bit 4 1 = 0 then (False, t, s)
         else let (cap, s) = pci_cfg_read8 env (gpu_bus gpu) (gpu_dev gpu) (gpu_func gpu) 0x34 s
              in find_caps_loop env pt gpu cap 0 t s)"

definition virtio_pci_device_init ::
  "io_env \<Rightarrow> gpu_device \<Rightarrow> virtio_gpu_pci \<Rightarrow> virtio_pci_transport \<Rightarrow> 'a gpu_state_scheme \<Rightarrow> bool \<times> 'a gpu_state_scheme" where
  "virtio_pci_device_init env dev gpu t s =
     (let (cmd, s) = pci_cfg_read16 env (gpu_bus gpu) (gpu_dev gpu) (gpu_func gpu) 0x04 s;
          cmd = cmd OR push_bit 1 1;
          cmd = cmd OR push_bit 2 1;
          s = pci_cfg_write16 env (gpu_bus gpu) (gpu_dev gpu) (gpu_func gpu) 0x04 cmd s;
          c = common_cfg t;
          s = common_write8 c 20 0 s;
          s = common_write8 c 20 VIRTIO_STATUS_ACKNOWLEDGE s;
          s = common_write8 c 20 (VIRTIO_STATUS_ACKNOWLEDGE OR VIRTIO_STATUS_DRIVER) s;
          s = common_write32 c 0 0 s;
          (_, s) = common_read32 dev c 4 s;
          s = common_write32 c 0 1 s;
          (_, s) = common_read32 dev c 4 s;
          s = common_write32 c 8 0 s;
          s = common_write32 c 12 0 s;
          s = common_write32 c 8 1 s;
          s = common_write32 c 12 VIRTIO_F_VERSION_1 s;
          status = VIRTIO_STATUS_ACKNOWLEDGE OR VIRTIO_STATUS_DRIVER OR VIRTIO_STATUS_FEATURES_OK;
          s = common_write8 c 20 status s;
          (status, s) = common_read8 dev c 20 s
      in if status AND VIRTIO_STATUS_FEATURES_OK = 0
         then (False, common_write8 c 20 (status OR VIRTIO_STATUS_FAILED) s)
         else (True, s))"

subsection \<open>The control queue\<close>

definition alloc_aligned :: "u32 \<Rightarrow> u32 \<Rightarrow> 'a memory_state_scheme \<Rightarrow> (ptr \<times> 'a memory_state_scheme) option" where
  "alloc_aligned sz align s = do {
     (raw, s) \<leftarrow> kmalloc (sz + align - 1) s;
     if raw = NULL then Some (NULL, s)
     else Some ((raw + ucast (align - 1)) AND NOT (ucast (align - 1)), s)
   }"

text \<open>The caller's \<open>virtqueue_t\<close> is passed in and out.\<close>

definition virtqueue_init_ctrl ::
  "gpu_device \<Rightarrow> virtio_pci_transport \<Rightarrow> virtqueue \<Rightarrow> u16 \<Rightarrow> 'a gpu_state_scheme \<Rightarrow> (bool \<times> virtqueue \<times> 'a gpu_state_scheme) option" where
  "virtqueue_init_ctrl dev t vq index s =
     (let s = common_write16 (common_cfg t) 22 index s;
          (qsize, s) = common_read16 dev (common_cfg t) 24 s
      in if qsize < 2 then Some (False, vq, s)
         else let desc_bytes = ucast qsize * 16 :: u32;
                  avail_bytes = 6 + ucast qsize * 2;
                  used_off = align_up_u32 (desc_bytes + avail_bytes) 4;
                  used_bytes = 6 + ucast qsize * 8;
                  total = used_off + used_bytes
              in do {
                (ring, s) \<leftarrow> alloc_aligned total 4096 s;
                if ring = NULL then Some (False, vq, s)
                else let s = s\<lparr>mem := memset ring 0 (ucast total) (mem s)\<rparr>;
                         vq = vq\<lparr>queue_index := index, queue_size := qsize, desc := ring, avail := ring + ucast desc_bytes,
                                 used_ring := ring + ucast used_off, avail_idx := 0, used_idx_seen := 0\<rparr>;
                         s = common_write16 (common_cfg t) 26 0xFFFF s;
                         s = common_write64 (common_cfg t) 32 (desc vq) s;
                         s = common_write64 (common_cfg t) 40 (avail vq) s;
                         s = common_write64 (common_cfg t) 48 (used_ring vq) s;
                         s = common_write16 (common_cfg t) 28 1 s;
                         (notify_off, s) = common_read16 dev (common_cfg t) 30 s;
                         vq = vq\<lparr>notify_addr := notify_base t + ucast (ucast notify_off * notify_off_multiplier t :: u32)\<rparr>;
                         s = common_write16 (common_cfg t) 22 index s;
                         (enabled, s) = common_read16 dev (common_cfg t) 28 s
                     in Some (enabled \<noteq> 0, vq, s)
              })"

text \<open>A volatile read of \<open>used->idx\<close> sees what the device has written by then.\<close>

definition read_used_idx :: "gpu_device \<Rightarrow> virtqueue \<Rightarrow> 'a gpu_state_scheme \<Rightarrow> u16 \<times> 'a gpu_state_scheme" where
  "read_used_idx dev vq s =
     (let l = Poll (used_ring vq) # mmio_log s; m = dma dev l (mem s)
      in (load16 m (used_ring vq + 2), s\<lparr>mem := m, mmio_log := l\<rparr>))"

function wait_used :: "gpu_device \<Rightarrow> virtqueue \<Rightarrow> u32 \<Rightarrow> 'a gpu_state_scheme \<Rightarrow> bool \<times> 'a gpu_state_scheme" where
  "wait_used dev vq timeout s =
     (let (idx, s) = read_used_idx dev vq s
      in if idx - used_idx_seen vq = 0
         then if timeout - 1 = 0 then (False, s) else wait_used dev vq (timeout - 1) s
         else (True, s))"
  by pat_completeness auto
termination
  by (relation "measure (\<lambda>(dev, vq, timeout, s). unat (timeout - 1))") (auto dest: timeout_measure)

declare wait_used.simps [simp del]

definition write_descriptors :: "virtqueue \<Rightarrow> ptr \<Rightarrow> u32 \<Rightarrow> ptr \<Rightarrow> u32 \<Rightarrow> memory \<Rightarrow> memory" where
  "write_descriptors vq cmd cmd_len resp resp_len m =
     (let d = desc vq;
          m = store64 d cmd m;
          m = store32 (d + 8) cmd_len m;
          m = store16 (d + 12) VIRTQ_DESC_F_NEXT m;
          m = store16 (d + 14) 1 m;
          m = store64 (d + 16) resp m;
          m = store32 (d + 24) resp_len m;
          m = store16 (d + 28) VIRTQ_DESC_F_WRITE m
      in store16 (d + 30) 0 m)"

definition virtqueue_submit_sync ::
  "gpu_device \<Rightarrow> virtqueue \<Rightarrow> ptr \<Rightarrow> u32 \<Rightarrow> ptr \<Rightarrow> u32 \<Rightarrow> 'a gpu_state_scheme \<Rightarrow> bool \<times> virtqueue \<times> 'a gpu_state_scheme" where
  "virtqueue_submit_sync dev vq cmd cmd_len resp resp_len s =
     (if queue_size vq < 2 then (False, vq, s)
      else let s = s\<lparr>mem := write_descriptors vq cmd cmd_len resp resp_len (mem s)\<rparr>;
               s = s\<lparr>mem := store16 (avail vq + 4 + 2 * ucast (avail_idx vq mod queue_size vq)) 0 (mem s)\<rparr>;
               vq = vq\<lparr>avail_idx := avail_idx vq + 1\<rparr>;
               s = s\<lparr>mem := store16 (avail vq + 2) (avail_idx vq) (mem s)\<rparr>;
               s = mmio_write 2 (notify_addr vq) (ucast (queue_index vq)) s;
               (ok, s) = wait_used dev vq VIRTIO_MMIO_TIMEOUT s
           in if \<not> ok then (False, vq, s)
              else let (idx, s) = read_used_idx dev vq s
                   in (True, vq\<lparr>used_idx_seen := idx\<rparr>, s))"

subsection \<open>Commands\<close>

text \<open>\<open>memset\<close> of both structures, and the type in the header of the command.\<close>

definition clear_cmd :: "gpu_locals \<Rightarrow> u32 \<Rightarrow> u32 \<Rightarrow> u32 \<Rightarrow> 'a machine_scheme \<Rightarrow> 'a machine_scheme" where
  "clear_cmd loc ty cmd_len resp_len s =
     (let s = s\<lparr>mem := memset (cmd_at loc ty) 0 (ucast cmd_len) (mem s)\<rparr>;
          s = s\<lparr>mem := memset (resp_at loc ty) 0 (ucast resp_len) (mem s)\<rparr>
      in s\<lparr>mem := store32 (cmd_at loc ty) ty (mem s)\<rparr>)"

definition set_field :: "gpu_locals \<Rightarrow> u32 \<Rightarrow> u64 \<Rightarrow> u32 \<Rightarrow> 'a machine_scheme \<Rightarrow> 'a machine_scheme" where
  "set_field loc ty off v s = s\<lparr>mem := store32 (cmd_at loc ty + off) v (mem s)\<rparr>"

definition submit_nodata ::
  "gpu_device \<Rightarrow> gpu_locals \<Rightarrow> u32 \<Rightarrow> u32 \<Rightarrow> virtqueue \<Rightarrow> 'a gpu_state_scheme \<Rightarrow> bool \<times> virtqueue \<times> 'a gpu_state_scheme" where
  "submit_nodata dev loc ty cmd_len vq s =
     (let (ok, vq, s) = virtqueue_submit_sync dev vq (cmd_at loc ty) cmd_len (resp_at loc ty) 24 s
      in if \<not> ok then (False, vq, s)
         else (load32 (mem s) (resp_at loc ty) = VIRTIO_GPU_RESP_OK_NODATA, vq, s))"

definition gpu_cmd_get_display_info ::
  "gpu_device \<Rightarrow> gpu_locals \<Rightarrow> virtqueue \<Rightarrow> u32 \<Rightarrow> u32 \<Rightarrow> 'a gpu_state_scheme \<Rightarrow>
     bool \<times> u32 \<times> u32 \<times> virtqueue \<times> 'a gpu_state_scheme" where
  "gpu_cmd_get_display_info dev loc vq width height s =
     (let ty = VIRTIO_GPU_CMD_GET_DISPLAY_INFO;
          s = clear_cmd loc ty 24 408 s;
          (ok, vq, s) = virtqueue_submit_sync dev vq (cmd_at loc ty) 24 (resp_at loc ty) 408 s;
          resp = resp_at loc ty
      in if \<not> ok then (False, width, height, vq, s)
         else if load32 (mem s) resp \<noteq> VIRTIO_GPU_RESP_OK_DISPLAY_INFO then (False, width, height, vq, s)
         else if load32 (mem s) (resp + 32) = 0 \<or> load32 (mem s) (resp + 36) = 0 then (False, width, height, vq, s)
         else (True, load32 (mem s) (resp + 32), load32 (mem s) (resp + 36), vq, s))"

definition gpu_cmd_resource_create_2d ::
  "gpu_device \<Rightarrow> gpu_locals \<Rightarrow> virtqueue \<Rightarrow> u32 \<Rightarrow> u32 \<Rightarrow> 'a gpu_state_scheme \<Rightarrow> bool \<times> virtqueue \<times> 'a gpu_state_scheme" where
  "gpu_cmd_resource_create_2d dev loc vq width height s =
     (let ty = VIRTIO_GPU_CMD_RESOURCE_CREATE_2D;
          s = clear_cmd loc ty 40 24 s;
          s = set_field loc ty 24 GPU_RESOURCE_ID s;
          s = set_field loc ty 28 VIRTIO_GPU_FORMAT_B8G8R8X8_UNORM s;
          s = set_field loc ty 32 width s;
          s = set_field loc ty 36 height s
      in submit_nodata dev loc ty 40 vq s)"

definition gpu_cmd_resource_attach_backing ::
  "gpu_device \<Rightarrow> gpu_locals \<Rightarrow> virtqueue \<Rightarrow> ptr \<Rightarrow> u32 \<Rightarrow> 'a gpu_state_scheme \<Rightarrow> bool \<times> virtqueue \<times> 'a gpu_state_scheme" where
  "gpu_cmd_resource_attach_backing dev loc vq fb bytes s =
     (let ty = VIRTIO_GPU_CMD_RESOURCE_ATTACH_BACKING;
          s = clear_cmd loc ty 48 24 s;
          s = set_field loc ty 24 GPU_RESOURCE_ID s;
          s = set_field loc ty 28 1 s;
          s = s\<lparr>mem := store64 (cmd_at loc ty + 32) fb (mem s)\<rparr>;
          s = set_field loc ty 40 bytes s
      in submit_nodata dev loc ty 48 vq s)"

text \<open>The rectangle that covers the screen follows the header in the next three commands.\<close>

definition set_rect :: "gpu_locals \<Rightarrow> u32 \<Rightarrow> u32 \<Rightarrow> u32 \<Rightarrow> 'a machine_scheme \<Rightarrow> 'a machine_scheme" where
  "set_rect loc ty width height s =
     (let s = set_field loc ty 24 0 s;
          s = set_field loc ty 28 0 s;
          s = set_field loc ty 32 width s
      in set_field loc ty 36 height s)"

definition gpu_cmd_set_scanout ::
  "gpu_device \<Rightarrow> gpu_locals \<Rightarrow> virtqueue \<Rightarrow> u32 \<Rightarrow> u32 \<Rightarrow> 'a gpu_state_scheme \<Rightarrow> bool \<times> virtqueue \<times> 'a gpu_state_scheme" where
  "gpu_cmd_set_scanout dev loc vq width height s =
     (let ty = VIRTIO_GPU_CMD_SET_SCANOUT;
          s = clear_cmd loc ty 48 24 s;
          s = set_rect loc ty width height s;
          s = set_field loc ty 40 GPU_SCANOUT_ID s;
          s = set_field loc ty 44 GPU_RESOURCE_ID s
      in submit_nodata dev loc ty 48 vq s)"

definition gpu_cmd_transfer_to_host_2d ::
  "gpu_device \<Rightarrow> gpu_locals \<Rightarrow> virtqueue \<Rightarrow> u32 \<Rightarrow> u32 \<Rightarrow> 'a gpu_state_scheme \<Rightarrow> bool \<times> virtqueue \<times> 'a gpu_state_scheme" where
  "gpu_cmd_transfer_to_host_2d dev loc vq width height s =
     (let ty = VIRTIO_GPU_CMD_TRANSFER_TO_HOST_2D;
          s = clear_cmd loc ty 56 24 s;
          s = set_rect loc ty width height s;
          s = s\<lparr>mem := store64 (cmd_at loc ty + 40) 0 (mem s)\<rparr>;
          s = set_field loc ty 48 GPU_RESOURCE_ID s
      in submit_nodata dev loc ty 56 vq s)"

definition gpu_cmd_resource_flush ::
  "gpu_device \<Rightarrow> gpu_locals \<Rightarrow> virtqueue \<Rightarrow> u32 \<Rightarrow> u32 \<Rightarrow> 'a gpu_state_scheme \<Rightarrow> bool \<times> virtqueue \<times> 'a gpu_state_scheme" where
  "gpu_cmd_resource_flush dev loc vq width height s =
     (let ty = VIRTIO_GPU_CMD_RESOURCE_FLUSH;
          s = clear_cmd loc ty 48 24 s;
          s = set_rect loc ty width height s;
          s = set_field loc ty 40 GPU_RESOURCE_ID s
      in submit_nodata dev loc ty 48 vq s)"

subsection \<open>Start of the driver\<close>

definition setup_framebuffer ::
  "gpu_device \<Rightarrow> gpu_locals \<Rightarrow> virtqueue \<Rightarrow> 'a gpu_state_scheme \<Rightarrow> (bool \<times> 'a gpu_state_scheme) option" where
  "setup_framebuffer dev loc controlq s =
     (let (_, width, height, controlq, s) = gpu_cmd_get_display_info dev loc controlq 1024 768 s;
          pixel_count = ucast width * ucast height :: u64
      in if pixel_count = 0 \<or> pixel_count > 64 * 1024 * 1024
         then Some (False, msg ''[OS] [VIRTIO] Invalid display size'' s)
         else let fb_bytes = ucast (pixel_count * 4) :: u32
              in do {
                (fb, s) \<leftarrow> kmalloc fb_bytes s;
                if fb = NULL then Some (False, msg ''[OS] [VIRTIO] Framebuffer allocation failed'' s)
                else let s = s\<lparr>mem := memset fb 0 (ucast fb_bytes) (mem s)\<rparr>;
                         (ok, controlq, s) = gpu_cmd_resource_create_2d dev loc controlq width height s
                     in if \<not> ok then Some (False, msg ''[OS] [VIRTIO] RESOURCE_CREATE_2D failed'' s)
                        else let (ok, controlq, s) = gpu_cmd_resource_attach_backing dev loc controlq fb fb_bytes s
                             in if \<not> ok then Some (False, msg ''[OS] [VIRTIO] ATTACH_BACKING failed'' s)
                                else let (ok, controlq, s) = gpu_cmd_set_scanout dev loc controlq width height s
                                     in if \<not> ok then Some (False, msg ''[OS] [VIRTIO] SET_SCANOUT failed'' s)
                                        else let s = msg ''[OS] [VIRTIO] Init complete'' s
                                             in Some (True, s\<lparr>g_gpu_controlq := controlq, g_gpu_width := width,
                                                  g_gpu_height := height, g_gpu_fb := fb, g_gpu_ready := 1\<rparr>)
              })"

definition virtio_gpu_init ::
  "io_env \<Rightarrow> gpu_device \<Rightarrow> page_tables \<Rightarrow> gpu_locals \<Rightarrow> 'a gpu_state_scheme \<Rightarrow> (bool \<times> 'a gpu_state_scheme) option" where
  "virtio_gpu_init env dev pt loc s =
     (let s = s\<lparr>g_gpu_ready := 0, g_gpu_width := 0, g_gpu_height := 0, g_gpu_fb := NULL\<rparr>;
          (found, s) = find_virtio_gpu env (gpu_init loc) s
      in case found of
        None \<Rightarrow> Some (False, msg ''[OS] [VIRTIO] GPU device not found'' s)
      | Some gpu \<Rightarrow>
          let s = serial_write_string ''[OS] [VIRTIO] GPU found (IRQ '' s;
              s = serial_write_uint32 (irq gpu) s;
              s = msg '')'' s;
              (ok, t, s) = virtio_pci_find_caps env pt gpu s
          in if \<not> ok then Some (False, msg ''[OS] [VIRTIO] Required PCI capabilities are missing'' s)
             else let (ok, s) = virtio_pci_device_init env dev gpu t s
                  in if \<not> ok then Some (False, msg ''[OS] [VIRTIO] Device init failed'' s)
                     else do {
                       (ok, controlq, s) \<leftarrow> virtqueue_init_ctrl dev t (vq_init loc) 0 s;
                       if \<not> ok then Some (False, msg ''[OS] [VIRTIO] Control queue init failed'' s)
                       else let (status, s) = common_read8 dev (common_cfg t) 20 s;
                                s = common_write8 (common_cfg t) 20 (status OR VIRTIO_STATUS_DRIVER_OK) s
                            in setup_framebuffer dev loc controlq s
                     })"

definition virtio_gpu_is_ready :: "'a gpu_state_scheme \<Rightarrow> bool" where
  "virtio_gpu_is_ready s \<longleftrightarrow> g_gpu_ready s \<noteq> 0"

definition virtio_gpu_width :: "'a gpu_state_scheme \<Rightarrow> u32" where "virtio_gpu_width s = g_gpu_width s"
definition virtio_gpu_height :: "'a gpu_state_scheme \<Rightarrow> u32" where "virtio_gpu_height s = g_gpu_height s"

subsection \<open>Drawing\<close>

text \<open>\<open>&g_gpu_fb[row + px]\<close> in the array of 32-bit pixels.\<close>

definition pixel_addr :: "'a gpu_state_scheme \<Rightarrow> u64 \<Rightarrow> ptr" where
  "pixel_addr s i = g_gpu_fb s + 4 * i"

definition virtio_gpu_draw_pixel :: "u32 \<Rightarrow> u32 \<Rightarrow> u32 \<Rightarrow> 'a gpu_state_scheme \<Rightarrow> 'a gpu_state_scheme" where
  "virtio_gpu_draw_pixel x y color s =
     (if g_gpu_ready s = 0 \<or> g_gpu_fb s = NULL \<or> x \<ge> g_gpu_width s \<or> y \<ge> g_gpu_height s then s
      else s\<lparr>mem := store32 (pixel_addr s (ucast y * ucast (g_gpu_width s) + ucast x)) color (mem s)\<rparr>)"

function fill_row_loop :: "u64 \<Rightarrow> u32 \<Rightarrow> u32 \<Rightarrow> u32 \<Rightarrow> 'a gpu_state_scheme \<Rightarrow> 'a gpu_state_scheme" where
  "fill_row_loop row x_end color px s =
     (if px < x_end
      then fill_row_loop row x_end color (px + 1) (s\<lparr>mem := store32 (pixel_addr s (row + ucast px)) color (mem s)\<rparr>)
      else s)"
  by pat_completeness auto
termination
  by (relation "measure (\<lambda>(row, x_end, color, px, s). unat x_end - unat px)") (simp_all add: inc_measure)

declare fill_row_loop.simps [simp del]

function fill_loop :: "u32 \<Rightarrow> u32 \<Rightarrow> u32 \<Rightarrow> u32 \<Rightarrow> u32 \<Rightarrow> 'a gpu_state_scheme \<Rightarrow> 'a gpu_state_scheme" where
  "fill_loop x x_end y_end color py s =
     (if py < y_end
      then let row = ucast py * ucast (g_gpu_width s)
           in fill_loop x x_end y_end color (py + 1) (fill_row_loop row x_end color x s)
      else s)"
  by pat_completeness auto
termination
  by (relation "measure (\<lambda>(x, x_end, y_end, color, py, s). unat y_end - unat py)") (simp_all add: inc_measure)

declare fill_loop.simps [simp del]

definition virtio_gpu_fill_rect :: "u32 \<Rightarrow> u32 \<Rightarrow> u32 \<Rightarrow> u32 \<Rightarrow> u32 \<Rightarrow> 'a gpu_state_scheme \<Rightarrow> 'a gpu_state_scheme" where
  "virtio_gpu_fill_rect x y w h color s =
     (if g_gpu_ready s = 0 \<or> g_gpu_fb s = NULL \<or> w = 0 \<or> h = 0 then s
      else if x \<ge> g_gpu_width s \<or> y \<ge> g_gpu_height s then s
      else let x_end = x + w;
               y_end = y + h;
               x_end = (if x_end > g_gpu_width s \<or> x_end < x then g_gpu_width s else x_end);
               y_end = (if y_end > g_gpu_height s \<or> y_end < y then g_gpu_height s else y_end)
           in fill_loop x x_end y_end color y s)"

definition virtio_gpu_present :: "gpu_device \<Rightarrow> gpu_locals \<Rightarrow> 'a gpu_state_scheme \<Rightarrow> 'a gpu_state_scheme" where
  "virtio_gpu_present dev loc s =
     (if g_gpu_ready s = 0 then s
      else let (ok, vq, s) = gpu_cmd_transfer_to_host_2d dev loc (g_gpu_controlq s) (g_gpu_width s) (g_gpu_height s) s;
               s = s\<lparr>g_gpu_controlq := vq\<rparr>
           in if \<not> ok then s
              else let (_, vq, s) = gpu_cmd_resource_flush dev loc (g_gpu_controlq s) (g_gpu_width s) (g_gpu_height s) s
                   in s\<lparr>g_gpu_controlq := vq\<rparr>)"

subsection \<open>The display interface\<close>

definition display_init ::
  "io_env \<Rightarrow> gpu_device \<Rightarrow> page_tables \<Rightarrow> gpu_locals \<Rightarrow> 'a gpu_state_scheme \<Rightarrow> (bool \<times> 'a gpu_state_scheme) option" where
  "display_init env dev pt loc s = virtio_gpu_init env dev pt loc s"

definition display_is_ready :: "'a gpu_state_scheme \<Rightarrow> bool" where "display_is_ready s = virtio_gpu_is_ready s"
definition display_width :: "'a gpu_state_scheme \<Rightarrow> u32" where "display_width s = virtio_gpu_width s"
definition display_height :: "'a gpu_state_scheme \<Rightarrow> u32" where "display_height s = virtio_gpu_height s"

definition display_draw_pixel :: "u32 \<Rightarrow> u32 \<Rightarrow> u32 \<Rightarrow> 'a gpu_state_scheme \<Rightarrow> 'a gpu_state_scheme" where
  "display_draw_pixel x y color s = virtio_gpu_draw_pixel x y color s"

definition display_fill_rect :: "u32 \<Rightarrow> u32 \<Rightarrow> u32 \<Rightarrow> u32 \<Rightarrow> u32 \<Rightarrow> 'a gpu_state_scheme \<Rightarrow> 'a gpu_state_scheme" where
  "display_fill_rect x y w h color s = virtio_gpu_fill_rect x y w h color s"

definition display_present :: "gpu_device \<Rightarrow> gpu_locals \<Rightarrow> 'a gpu_state_scheme \<Rightarrow> 'a gpu_state_scheme" where
  "display_present dev loc s = virtio_gpu_present dev loc s"

end
