(* ===== verification/Paging_Properties.thy ===== *)
theory Paging_Properties
  imports Paging File_Properties
begin

text \<open>
  Properties of paging. The tables in memory are related to a function from the numbers of
  2 MB pages to those of page frames; \<open>init_paging\<close> sets up the identity, \<open>map_mmio_virt\<close> updates
  it at one page, and the walk of the processor computes it.
\<close>

subsection \<open>The tables in memory\<close>

definition pt_ok :: "page_tables \<Rightarrow> bool" where
  "pt_ok pt \<longleftrightarrow> 4096 dvd unat (pml4 pt) \<and> 4096 dvd unat (pdpt pt) \<and> 4096 dvd unat (pd pt) \<and>
     unat (pml4 pt) + 4096 \<le> 4503599627370496 \<and> unat (pdpt pt) + 4096 \<le> 4503599627370496 \<and>
     unat (pd pt) + 262144 \<le> 4503599627370496 \<and>
     (unat (pml4 pt) + 4096 \<le> unat (pdpt pt) \<or> unat (pdpt pt) + 4096 \<le> unat (pml4 pt)) \<and>
     (unat (pml4 pt) + 4096 \<le> unat (pd pt) \<or> unat (pd pt) + 262144 \<le> unat (pml4 pt)) \<and>
     (unat (pdpt pt) + 4096 \<le> unat (pd pt) \<or> unat (pd pt) + 262144 \<le> unat (pdpt pt))"

lemma aligned_spans:
  assumes "8 dvd unat a" "8 dvd unat b" "a \<noteq> b"
  shows "span a 8 \<inter> span b 8 = {}"
proof -
  obtain x y where x: "unat a = 8 * x" "unat b = 8 * y" using assms(1,2) by (auto elim!: dvdE)
  have "x \<noteq> y" using x assms(3) by (metis word_unat_eq_iff)
  moreover have "x < 2305843009213693952" "y < 2305843009213693952"
    using x unat_lt_u64 [of a] unat_lt_u64 [of b] by simp_all
  then have "unat a + 8 \<le> 18446744073709551616" "unat b + 8 \<le> 18446744073709551616" using x by simp_all
  ultimately show ?thesis using x by (auto simp: span_noof)
qed

lemma load64_store64_aligned:
  "8 dvd unat a \<Longrightarrow> 8 dvd unat b \<Longrightarrow> load64 (store64 a v m) b = (if a = b then v else load64 m b)"
  using aligned_spans [of b a] by (simp add: load64_store64 load64_store64_other)

lemma entry_address:
  assumes "pt_ok pt"
  shows "k < 512 \<Longrightarrow> unat (pml4 pt + 8 * k) = unat (pml4 pt) + 8 * unat k"
    "i < 512 \<Longrightarrow> unat (pdpt_at pt i) = unat (pdpt pt) + 8 * unat i"
    "i < 64 \<Longrightarrow> unat (pd_row pt i) = unat (pd pt) + 4096 * unat i"
    "i < 64 \<Longrightarrow> j < 512 \<Longrightarrow> unat (pd_at pt i j) = unat (pd pt) + 4096 * unat i + 8 * unat j"
proof -
  have b: "unat (pml4 pt) + 4096 \<le> 4503599627370496" "unat (pdpt pt) + 4096 \<le> 4503599627370496"
    "unat (pd pt) + 262144 \<le> 4503599627370496" using assms by (simp_all add: pt_ok_def)
  have m: "unat (8 * x) = 8 * unat x" "unat x < 512" if "x < 512" for x :: u64
    using that unat_mult_noof [of 8 x] by (simp_all add: word_less_nat_alt)
  have n: "unat (4096 * x) = 4096 * unat x" "unat x < 64" if "x < 64" for x :: u64
    using that unat_mult_noof [of 4096 x] by (simp_all add: word_less_nat_alt)
  show "k < 512 \<Longrightarrow> unat (pml4 pt + 8 * k) = unat (pml4 pt) + 8 * unat k"
    using b m [of k] by (subst unat_add_noof) simp_all
  show "i < 512 \<Longrightarrow> unat (pdpt_at pt i) = unat (pdpt pt) + 8 * unat i"
    unfolding pdpt_at_def using b m [of i] by (subst unat_add_noof) simp_all
  show r: "i < 64 \<Longrightarrow> unat (pd_row pt i) = unat (pd pt) + 4096 * unat i"
    unfolding pd_row_def using b n [of i] by (subst unat_add_noof) simp_all
  show "i < 64 \<Longrightarrow> j < 512 \<Longrightarrow> unat (pd_at pt i j) = unat (pd pt) + 4096 * unat i + 8 * unat j"
    unfolding pd_at_def using b n [of i] m [of j] r by (subst unat_add_noof) simp_all
qed

lemma entry_aligned:
  assumes "pt_ok pt"
  shows "k < 512 \<Longrightarrow> 8 dvd unat (pml4 pt + 8 * k)" "8 dvd unat (pml4 pt)" "i < 512 \<Longrightarrow> 8 dvd unat (pdpt_at pt i)"
    "i < 64 \<Longrightarrow> j < 512 \<Longrightarrow> 8 dvd unat (pd_at pt i j)"
proof -
  have d: "8 dvd unat (pml4 pt)" "8 dvd unat (pdpt pt)" "8 dvd unat (pd pt)"
    using assms by (auto simp: pt_ok_def elim: dvd_trans [of 8 4096, rotated])
  then show "k < 512 \<Longrightarrow> 8 dvd unat (pml4 pt + 8 * k)" "8 dvd unat (pml4 pt)" "i < 512 \<Longrightarrow> 8 dvd unat (pdpt_at pt i)"
    "i < 64 \<Longrightarrow> j < 512 \<Longrightarrow> 8 dvd unat (pd_at pt i j)"
    by (simp_all add: entry_address [OF assms] dvd_add)
qed

lemma entry_inj:
  assumes "pt_ok pt" "i < 64" "j < 512" "i' < 64" "j' < 512" "k < 512" "k' < 512" "l < 512"
  shows "pd_at pt i j = pd_at pt i' j' \<longleftrightarrow> i = i' \<and> j = j'" "pdpt_at pt k = pdpt_at pt k' \<longleftrightarrow> k = k'"
    "pdpt_at pt k \<noteq> pd_at pt i j" "pd_at pt i j \<noteq> pdpt_at pt k" "pml4 pt + 8 * l \<noteq> pd_at pt i j" "pml4 pt + 8 * l \<noteq> pdpt_at pt k"
proof -
  have n: "unat i < 64" "unat j < 512" "unat i' < 64" "unat j' < 512" "unat k < 512" "unat k' < 512" "unat l < 512"
    using assms(2-) by (simp_all add: word_less_nat_alt)
  note a = entry_address [OF assms(1)]
  show "pd_at pt i j = pd_at pt i' j' \<longleftrightarrow> i = i' \<and> j = j'"
  proof
    assume "pd_at pt i j = pd_at pt i' j'"
    then have "unat (pd_at pt i j) = unat (pd_at pt i' j')" by simp
    then have eq: "512 * unat i + unat j = 512 * unat i' + unat j'"
      using a(4) [OF assms(2,3)] a(4) [OF assms(4,5)] by linarith
    moreover have "(512 * unat x + unat y) div 512 = unat x" if "unat y < 512" for x y :: u64 using that by simp
    ultimately have "unat i = unat i'" using n(2,4) by metis
    with eq have "unat i = unat i' \<and> unat j = unat j'" by linarith
    then show "i = i' \<and> j = j'" by (simp add: word_unat_eq_iff)
  qed simp
  show "pdpt_at pt k = pdpt_at pt k' \<longleftrightarrow> k = k'"
    using a(2) [OF assms(6)] a(2) [OF assms(7)] by (auto simp: word_unat_eq_iff)
  have o: "unat (pdpt pt) + 4096 \<le> unat (pd pt) \<or> unat (pd pt) + 262144 \<le> unat (pdpt pt)"
    "unat (pml4 pt) + 4096 \<le> unat (pd pt) \<or> unat (pd pt) + 262144 \<le> unat (pml4 pt)"
    "unat (pml4 pt) + 4096 \<le> unat (pdpt pt) \<or> unat (pdpt pt) + 4096 \<le> unat (pml4 pt)"
    using assms(1) by (simp_all add: pt_ok_def)
  have "unat (pdpt_at pt k) \<noteq> unat (pd_at pt i j)" using a(2) [OF assms(6)] a(4) [OF assms(2,3)] n o(1) by linarith
  then show "pdpt_at pt k \<noteq> pd_at pt i j" "pd_at pt i j \<noteq> pdpt_at pt k" by auto
  have "unat (pml4 pt + 8 * l) \<noteq> unat (pd_at pt i j)" using a(1) [OF assms(8)] a(4) [OF assms(2,3)] n o(2) by linarith
  then show "pml4 pt + 8 * l \<noteq> pd_at pt i j" by auto
  have "unat (pml4 pt + 8 * l) \<noteq> unat (pdpt_at pt k)" using a(1) [OF assms(8)] a(2) [OF assms(6)] n o(3) by linarith
  then show "pml4 pt + 8 * l \<noteq> pdpt_at pt k" by auto
qed

subsection \<open>Filling the tables\<close>

definition leaf :: "u64 \<Rightarrow> u64" where "leaf a = a OR PAGE_PRESENT OR PAGE_RW OR PAGE_PS OR PAGE_USER"

definition branch :: "u64 \<Rightarrow> u64" where "branch a = a OR PAGE_PRESENT OR PAGE_RW OR PAGE_USER"

lemma init_pd_loop_other:
  assumes "pt_ok pt" "i < 64" "8 dvd unat a" "\<And>k. j \<le> k \<Longrightarrow> k < 512 \<Longrightarrow> a \<noteq> pd_at pt i k"
  shows "load64 (init_pd_loop pt i base j m) a = load64 m a"
  using assms
proof (induction pt i base j m rule: init_pd_loop.induct)
  case (1 pt i base j m)
  show ?case
  proof (cases "j < 512")
    case True
    have up: "j \<le> k" if "j + 1 \<le> k" for k using that True by (simp add: word_le_nat_alt unat_inc_less)
    have "load64 (init_pd_loop pt i base (j + 1) (store64 (pd_at pt i j) (leaf (base + j * MB2)) m)) a =
        load64 (store64 (pd_at pt i j) (leaf (base + j * MB2)) m) a"
      unfolding leaf_def by (rule "1.IH" [OF True "1.prems"(1-3)]) (use "1.prems"(4) up in blast)
    then show ?thesis
      using True "1.prems"(3) "1.prems"(4) [of j] entry_aligned(4) [OF "1.prems"(1,2) True]
      by (simp add: init_pd_loop.simps [of pt i base j m] leaf_def load64_store64_aligned)
  qed (simp add: init_pd_loop.simps [of pt i base j m])
qed

lemma init_pd_loop_entry:
  assumes "pt_ok pt" "i < 64" "j \<le> k" "k < 512"
  shows "load64 (init_pd_loop pt i base j m) (pd_at pt i k) = leaf (base + k * MB2)"
  using assms
proof (induction pt i base j m rule: init_pd_loop.induct)
  case (1 pt i base j m)
  have j: "j < 512" using "1.prems"(3,4) by simp
  have step: "init_pd_loop pt i base j m = init_pd_loop pt i base (j + 1) (store64 (pd_at pt i j) (leaf (base + j * MB2)) m)"
    using j by (simp add: init_pd_loop.simps [of pt i base j m] leaf_def)
  show ?case
  proof (cases "j = k")
    case True
    have "pd_at pt i k \<noteq> pd_at pt i l" if "j + 1 \<le> l" "l < 512" for l
    proof -
      have "l \<noteq> k" using that True j by (auto simp: word_le_nat_alt unat_inc_less)
      then show ?thesis using entry_inj(1) [OF "1.prems"(1,2,4,2) that(2), of 0 0 0] by simp
    qed
    then show ?thesis
      unfolding step using init_pd_loop_other [OF "1.prems"(1,2) entry_aligned(4) [OF "1.prems"(1,2,4)]] True
      by (simp add: load64_store64)
  next
    case False
    then have "j + 1 \<le> k" using "1.prems"(3) j by (simp add: word_le_nat_alt unat_inc_less word_unat_eq_iff)
    then show ?thesis unfolding step using "1.IH" [OF j "1.prems"(1,2) _ "1.prems"(4)] by (simp add: leaf_def)
  qed
qed

lemma init_pdpt_loop_other:
  assumes "pt_ok pt" "n \<le> 64" "8 dvd unat a"
    and "\<And>k. i \<le> k \<Longrightarrow> k < n \<Longrightarrow> a \<noteq> pdpt_at pt k" "\<And>k j. i \<le> k \<Longrightarrow> k < n \<Longrightarrow> j < 512 \<Longrightarrow> a \<noteq> pd_at pt k j"
  shows "load64 (init_pdpt_loop pt n i m) a = load64 m a"
  using assms
proof (induction pt n i m rule: init_pdpt_loop.induct)
  case (1 pt n i m)
  show ?case
  proof (cases "i < n")
    case True
    have i: "i < 64" "i < 512" using True "1.prems"(2) by (simp_all add: word_le_nat_alt word_less_nat_alt)
    have up: "i \<le> k" if "i + 1 \<le> k" for k using that True by (simp add: word_le_nat_alt unat_inc_less)
    let ?m = "init_pd_loop pt i (i * GB) 0 (store64 (pdpt_at pt i) (branch (pd_row pt i)) m)"
    have "load64 (init_pdpt_loop pt n (i + 1) ?m) a = load64 ?m a"
      unfolding branch_def by (rule "1.IH" [OF True refl refl "1.prems"(1-3)]) (use "1.prems"(4,5) up in blast)+
    also have "\<dots> = load64 m a"
      using "1.prems"(3) "1.prems"(4) [OF order_refl True] "1.prems"(5) [OF order_refl True] entry_aligned(3) [OF "1.prems"(1) i(2)]
      by (subst init_pd_loop_other [OF "1.prems"(1) i(1)]) (auto simp: load64_store64_aligned)
    finally show ?thesis using True by (simp add: init_pdpt_loop.simps [of pt n i m] branch_def Let_def)
  qed (simp add: init_pdpt_loop.simps [of pt n i m])
qed

lemma init_pdpt_loop_entry:
  assumes "pt_ok pt" "n \<le> 64" "i \<le> k" "k < n" "j < 512"
  shows "load64 (init_pdpt_loop pt n i m) (pdpt_at pt k) = branch (pd_row pt k)"
    and "load64 (init_pdpt_loop pt n i m) (pd_at pt k j) = leaf (k * GB + j * MB2)"
proof -
  have k: "k < 64" "k < 512" using assms(2,4) by (simp_all add: word_le_nat_alt word_less_nat_alt)
  note al = entry_aligned(3) [OF assms(1) k(2)] entry_aligned(4) [OF assms(1) k(1) assms(5)]
  have "load64 (init_pdpt_loop pt n i m) (pdpt_at pt k) = branch (pd_row pt k) \<and>
      load64 (init_pdpt_loop pt n i m) (pd_at pt k j) = leaf (k * GB + j * MB2)"
    using assms(3)
  proof (induction "unat k - unat i" arbitrary: i m)
    case 0
    then have "i = k" by (simp add: word_le_nat_alt word_unat_eq_iff)
    let ?m = "init_pd_loop pt k (k * GB) 0 (store64 (pdpt_at pt k) (branch (pd_row pt k)) m)"
    have step: "init_pdpt_loop pt n i m = init_pdpt_loop pt n (k + 1) ?m"
      using \<open>i = k\<close> assms(4) by (simp add: init_pdpt_loop.simps [of pt n k m] branch_def Let_def)
    have lt: "l \<noteq> k \<and> l < 64 \<and> l < 512" if "k + 1 \<le> l" "l < n" for l
      using that assms(2,4) by (auto simp: word_le_nat_alt word_less_nat_alt unat_inc_less)
    have "load64 (init_pdpt_loop pt n (k + 1) ?m) a = load64 ?m a" if "a = pdpt_at pt k \<or> a = pd_at pt k j" for a
      using that al lt entry_inj [OF assms(1) k(1) assms(5)] entry_inj(2,3) [OF assms(1), where k = k] k
      by (intro init_pdpt_loop_other [OF assms(1,2)]) metis+
    moreover have "load64 ?m (pd_at pt k j) = leaf (k * GB + j * MB2)"
      using init_pd_loop_entry [OF assms(1) k(1) _ assms(5), of 0] by simp
    moreover have "load64 ?m (pdpt_at pt k) = branch (pd_row pt k)"
      using al entry_inj(3) [OF assms(1) k(1)] k
      by (subst init_pd_loop_other [OF assms(1) k(1)]) (auto simp: load64_store64)
    ultimately show ?case unfolding step by simp
  next
    case (Suc x)
    then have "i < k" "i < n" using assms(4) by (simp_all add: word_less_nat_alt)
    then have "i + 1 \<le> k" "x = unat k - unat (i + 1)" using Suc(2) by (simp_all add: word_le_nat_alt unat_inc_less word_less_nat_alt)
    then show ?case using Suc(1) \<open>i < n\<close> by (simp add: init_pdpt_loop.simps [of pt n i m] Let_def)
  qed
  then show "load64 (init_pdpt_loop pt n i m) (pdpt_at pt k) = branch (pd_row pt k)"
    "load64 (init_pdpt_loop pt n i m) (pd_at pt k j) = leaf (k * GB + j * MB2)" by auto
qed

subsection \<open>The walk\<close>

text \<open>
  The tables map the first \<open>n\<close> gigabytes: the page with index \<open>j\<close> in gigabyte \<open>i\<close> to the 2 MB of
  physical memory at \<open>f i j\<close>.
\<close>

definition tables :: "page_tables \<Rightarrow> u64 \<Rightarrow> (u64 \<Rightarrow> u64 \<Rightarrow> u64) \<Rightarrow> memory \<Rightarrow> bool" where
  "tables pt n f m \<longleftrightarrow> load64 m (pml4 pt) = branch (pdpt pt) \<and> (\<forall>k. 0 < k \<and> k < 512 \<longrightarrow> load64 m (pml4 pt + 8 * k) = 0) \<and>
     (\<forall>i < 512. load64 m (pdpt_at pt i) = (if i < n then branch (pd_row pt i) else 0)) \<and>
     (\<forall>i < n. \<forall>j < 512. load64 m (pd_at pt i j) = leaf (f i j))"

definition page_addr :: "u64 \<Rightarrow> bool" where
  "page_addr a \<longleftrightarrow> take_bit 21 a = 0 \<and> drop_bit 52 a = 0"

lemma flag_bits: "PAGE_PRESENT = push_bit 0 1" "PAGE_RW = push_bit 1 1" "PAGE_USER = push_bit 2 1" "PAGE_PS = push_bit 7 1"
  by (simp_all add: PAGE_PRESENT_def PAGE_RW_def PAGE_USER_def PAGE_PS_def)

lemma low_bits_clear: "take_bit k a = 0 \<Longrightarrow> n < k \<Longrightarrow> \<not> bit a n" for a :: u64
  by (metis bit_take_bit_iff bit_0_eq bot_apply bot_bool_def)

lemma high_bits_clear: "drop_bit k a = 0 \<Longrightarrow> k \<le> n \<Longrightarrow> \<not> bit a n" for a :: u64
  using bit_drop_bit_eq [of k a] by (metis bit_0_eq bot_apply bot_bool_def comp_apply le_add_diff_inverse)

lemma small_bits: "bit (7 :: u64) n \<Longrightarrow> n < 12" "bit (135 :: u64) n \<Longrightarrow> n < 21"
proof -
  have *: "take_bit 12 (7 :: u64) = 7" "take_bit 21 (135 :: u64) = 135" by simp_all
  show "bit (7 :: u64) n \<Longrightarrow> n < 12" by (metis *(1) bit_take_bit_iff)
  show "bit (135 :: u64) n \<Longrightarrow> n < 21" by (metis *(2) bit_take_bit_iff)
qed

lemma unat_bits: "unat (take_bit k a) = unat a mod 2 ^ k" "unat (drop_bit k a) = unat a div 2 ^ k" for a :: u64
proof -
  show "unat (take_bit k a) = unat a mod 2 ^ k"
    by (subst unsigned_take_bit_eq) (simp only: take_bit_eq_mod)
  show "unat (drop_bit k a) = unat a div 2 ^ k"
    by (subst unsigned_drop_bit_eq, subst take_bit_nat_eq_self [OF unsigned_less]) (simp only: drop_bit_eq_div)
qed

lemma branch_bits: "take_bit 12 a = 0 \<Longrightarrow> bit (branch a) 0" "take_bit 12 a = 0 \<Longrightarrow> \<not> bit (branch a) 7"
  using low_bits_clear [of 12 a 7] by (simp_all add: branch_def flag_bits bit_simps)

lemma table_base_branch:
  assumes "take_bit 12 a = 0" "drop_bit 52 a = 0"
  shows "table_base (branch a) = a" "table_base a = a"
proof -
  have "bit (table_base (branch a)) n = bit a n \<and> bit (table_base a) n = bit a n" for n
    using low_bits_clear [OF assms(1), of n] high_bits_clear [OF assms(2), of n]
    by (cases "n < 12"; cases "52 \<le> n") (use small_bits(1) [of n] in \<open>auto simp: table_base_def branch_def flag_bits bit_simps\<close>)
  then show "table_base (branch a) = a" "table_base a = a" by (simp_all add: bit_eq_iff)
qed

lemma leaf_bits:
  assumes "page_addr a"
  shows "bit (leaf a) 0" "bit (leaf a) 7" "leaf a AND push_bit 21 (mask 31) = a"
proof -
  show "bit (leaf a) 0" "bit (leaf a) 7" by (simp_all add: leaf_def flag_bits bit_simps)
  have "bit (leaf a AND push_bit 21 (mask 31)) n = bit a n" for n
    using assms low_bits_clear [of 21 a n] high_bits_clear [of 52 a n]
    by (cases "n < 21"; cases "52 \<le> n") (use small_bits(2) [of n] in \<open>auto simp: page_addr_def leaf_def flag_bits bit_simps\<close>)
  then show "leaf a AND push_bit 21 (mask 31) = a" by (simp add: bit_eq_iff)
qed

lemma aligned_bits:
  fixes a :: u64
  assumes "4096 dvd unat a" "unat a < 4503599627370496"
  shows "take_bit 12 a = 0" "drop_bit 52 a = 0"
proof -
  have "unat (take_bit 12 a) = unat a mod 4096" using unat_bits(1) [of 12 a] by (simp only:) simp
  then show "take_bit 12 a = 0" using assms(1) by (simp add: word_unat_eq_iff)
  have "unat (drop_bit 52 a) = unat a div 4503599627370496" using unat_bits(2) [of 52 a] by (simp only:) simp
  then show "drop_bit 52 a = 0" using assms(2) by (simp add: word_unat_eq_iff)
qed

lemma level_index_unat: "unat (level_index k va) = unat va div 2 ^ k mod 512"
  by (simp only: level_index_def unat_bits) simp

lemma level_index_less: "level_index k va < 512"
  using level_index_unat [of k va] by (simp add: word_less_nat_alt)

lemma pt_bits:
  assumes "pt_ok pt"
  shows "table_base (pml4 pt) = pml4 pt" "table_base (branch (pdpt pt)) = pdpt pt"
    "i < 64 \<Longrightarrow> table_base (branch (pd_row pt i)) = pd_row pt i" "bit (branch (pdpt pt)) 0"
    "i < 64 \<Longrightarrow> bit (branch (pd_row pt i)) 0" "i < 64 \<Longrightarrow> \<not> bit (branch (pd_row pt i)) 7"
proof -
  have "unat i < 64" if "i < 64" using that by (simp add: word_less_nat_alt)
  then have "4096 dvd unat (pd_row pt i)" "unat (pd_row pt i) < 4503599627370496" if "i < 64"
    using that entry_address(3) [OF assms that] assms by (simp_all add: pt_ok_def)
  note r = aligned_bits [OF this]
  note p = aligned_bits [of "pml4 pt"] aligned_bits [of "pdpt pt"]
  show "table_base (pml4 pt) = pml4 pt" "table_base (branch (pdpt pt)) = pdpt pt" "bit (branch (pdpt pt)) 0"
    using assms p by (auto simp: pt_ok_def intro!: table_base_branch branch_bits)
  show "i < 64 \<Longrightarrow> table_base (branch (pd_row pt i)) = pd_row pt i" "i < 64 \<Longrightarrow> bit (branch (pd_row pt i)) 0"
    "i < 64 \<Longrightarrow> \<not> bit (branch (pd_row pt i)) 7"
    using r by (auto intro!: table_base_branch branch_bits)
qed

lemma walk_tables:
  assumes pt: "pt_ok pt" and t: "tables pt n f m" and n: "n \<le> 64" and f: "\<And>i j. i < n \<Longrightarrow> j < 512 \<Longrightarrow> page_addr (f i j)"
  shows "walk m (pml4 pt) va = (if unat va < unat n * 1073741824
    then Some (f (level_index 30 va) (level_index 21 va) OR take_bit 21 va) else None)"
proof (cases "unat va < 549755813888")
  case False
  then have "drop_bit 48 va \<noteq> 0 \<or> level_index 39 va \<noteq> 0"
  proof (cases "drop_bit 48 va = 0")
    case True
    have "unat (drop_bit 48 va) = unat va div 281474976710656" by (simp only: unat_bits) simp
    with True have "unat va < 281474976710656" by (simp add: div_eq_0_iff)
    then have "unat va div 549755813888 mod 512 = unat va div 549755813888" by simp
    moreover have "unat va div 549755813888 \<noteq> 0" using False by (simp add: div_eq_0_iff)
    ultimately have "unat (level_index 39 va) \<noteq> 0" using level_index_unat [of 39 va] by simp
    then show ?thesis by (auto simp: unat_eq_0)
  qed simp
  moreover have "load64 m (pml4 pt + 8 * level_index 39 va) = 0" if "level_index 39 va \<noteq> 0"
    using t that level_index_less [of 39 va] by (auto simp: tables_def word_neq_0_conv)
  moreover have "unat n * 1073741824 \<le> unat va" using False n by (simp add: word_le_nat_alt)
  ultimately show ?thesis using pt_bits(1) [OF pt] by (auto simp: walk_def)
next
  case True
  have "unat (drop_bit 48 va) = 0" "unat (level_index 39 va) = 0"
    using True by (simp_all only: unat_bits level_index_unat) simp_all
  then have z: "drop_bit 48 va = 0" "level_index 39 va = 0" by (simp_all add: unat_eq_0)
  have i: "unat (level_index 30 va) = unat va div 1073741824"
    using True level_index_unat [of 30 va] by (simp add: less_mult_imp_div_less)
  let ?i = "level_index 30 va" and ?j = "level_index 21 va"
  have lt: "?i < n \<longleftrightarrow> unat va < unat n * 1073741824"
    by (simp add: word_less_nat_alt i div_less_iff_less_mult)
  have e3: "load64 m (pdpt pt + 8 * ?i) = (if ?i < n then branch (pd_row pt ?i) else 0)"
    using t level_index_less [of 30 va] by (simp add: tables_def pdpt_at_def)
  have e4: "load64 m (pml4 pt) = branch (pdpt pt)" using t by (simp add: tables_def)
  show ?thesis
  proof (cases "?i < n")
    case True
    then have i64: "?i < 64" using n by simp
    have "load64 m (pd_row pt ?i + 8 * ?j) = leaf (f ?i ?j)"
      using t True level_index_less [of 21 va] by (simp add: tables_def pd_at_def)
    then show ?thesis
      using True lt e3 e4 z pt_bits [OF pt] pt_bits(3,5,6) [OF pt i64] leaf_bits [OF f [OF True level_index_less [of 21 va]]]
      by (simp add: walk_def Let_def)
  next
    case False
    then show ?thesis using lt e3 e4 z pt_bits(1,2,4) [OF pt] by (simp add: walk_def)
  qed
qed

subsection \<open>The identity mapping\<close>

lemma page_unat:
  assumes "i < 64" "j < 512"
  shows "unat (i * GB + j * MB2) = 1073741824 * unat i + 2097152 * unat j"
proof -
  have b: "unat i < 64" "unat j < 512" using assms by (simp_all add: word_less_nat_alt)
  have "unat (i * GB) = unat i * 1073741824" "unat (j * MB2) = unat j * 2097152"
    using b by (simp_all add: GB_def MB2_def unat_mult_noof)
  then show ?thesis using b by (subst unat_add_noof) simp_all
qed

lemma page_addr_iff: "page_addr a \<longleftrightarrow> unat a mod 2097152 = 0 \<and> unat a < 4503599627370496"
proof -
  have "take_bit 21 a = 0 \<longleftrightarrow> unat (take_bit 21 a) = 0" "drop_bit 52 a = 0 \<longleftrightarrow> unat (drop_bit 52 a) = 0"
    by (simp_all only: unat_eq_0)
  then show ?thesis unfolding page_addr_def unat_bits by (simp add: div_eq_0_iff)
qed

lemma page_addr_identity:
  assumes "i < 64" "j < 512"
  shows "page_addr (i * GB + j * MB2)"
proof -
  have "unat i < 64" "unat j < 512" using assms by (simp_all add: word_less_nat_alt)
  moreover have "1073741824 * unat i + 2097152 * unat j = 2097152 * (512 * unat i + unat j)" by simp
  ultimately show ?thesis by (simp only: page_addr_iff page_unat [OF assms] mod_mult_self1_is_0) simp
qed

lemma page_number:
  assumes "unat va < 68719476736"
  shows "level_index 30 va < 64" "unat va div 2097152 = 512 * unat (level_index 30 va) + unat (level_index 21 va)"
proof -
  have i: "unat (level_index 30 va) = unat va div 1073741824"
    using assms level_index_unat [of 30 va] by (simp add: less_mult_imp_div_less)
  then show "level_index 30 va < 64" using assms by (simp add: word_less_nat_alt less_mult_imp_div_less)
  have "unat va div 1073741824 = unat va div 2097152 div 512" by (simp flip: div_mult2_eq)
  then show "unat va div 2097152 = 512 * unat (level_index 30 va) + unat (level_index 21 va)"
    unfolding i using level_index_unat [of 21 va] by simp
qed

lemma identity_page:
  assumes "unat va < 68719476736"
  shows "(level_index 30 va * GB + level_index 21 va * MB2) OR take_bit 21 va = va"
proof -
  note n = page_number [OF assms]
  have "unat (level_index 30 va * GB + level_index 21 va * MB2) = 2097152 * (unat va div 2097152)"
    unfolding n(2) by (simp add: page_unat [OF n(1) level_index_less])
  moreover have "unat (push_bit 21 (drop_bit 21 va)) = 2097152 * (unat va div 2097152)"
  proof -
    have "push_bit 21 (drop_bit 21 va) = drop_bit 21 va * 2097152" by (simp add: push_bit_eq_mult)
    moreover have "unat (drop_bit 21 va) = unat va div 2097152" using unat_bits(2) [of 21 va] by simp
    moreover have "unat va div 2097152 * 2097152 < 18446744073709551616"
      using unat_lt_u64 [of va] div_times_less_eq_dividend [of "unat va" 2097152] by (rule le_less_trans [rotated])
    ultimately show ?thesis using unat_mult_noof [of "drop_bit 21 va" 2097152] by (simp only:) simp
  qed
  ultimately have "level_index 30 va * GB + level_index 21 va * MB2 = push_bit 21 (drop_bit 21 va)"
    by (simp only: word_unat_eq_iff)
  then show ?thesis by (simp only:) (rule bit_word_eqI, auto simp: bit_simps)
qed

text \<open>The number of gigabytes that \<open>init_paging\<close> maps for a framebuffer that ends at \<open>fb_end\<close>.\<close>

definition mapped_gb :: "nat \<Rightarrow> nat" where
  "mapped_gb fb_end = min 64 (max 4 ((fb_end + 1073741823) div 1073741824))"

lemma required_entries:
  fixes base :: u64 and sz :: u32
  assumes "unat base + unat sz \<le> 18446744072635809792"
  defines "fb_end \<equiv> base + ucast sz"
  defines "r \<equiv> ((if fb_end > 4 * GB then fb_end else 4 * GB) + GB - 1) div GB"
  shows "unat (if r > MAX_PDPT_ENTRIES then MAX_PDPT_ENTRIES else r) = mapped_gb (unat base + unat sz)"
proof -
  have fe: "unat fb_end = unat base + unat sz" unfolding fb_end_def using assms(1) by (subst unat_add_noof) simp_all
  define mx where "mx = (if fb_end > 4 * GB then fb_end else 4 * GB)"
  have mx: "unat mx = max 4294967296 (unat fb_end)" by (simp add: mx_def GB_def word_less_nat_alt max_def)
  have "mx + GB - 1 = mx + 1073741823" by (simp add: GB_def)
  also have "unat \<dots> = unat mx + 1073741823" using mx fe assms(1) by (subst unat_add_noof) simp_all
  finally have "unat (mx + GB - 1) = unat mx + 1073741823" .
  then have "unat r = (unat mx + 1073741823) div 1073741824"
    unfolding r_def mx_def [symmetric] unat_div by (simp only:) (simp add: GB_def)
  also have "\<dots> = max 4 ((unat fb_end + 1073741823) div 1073741824)"
  proof (cases "unat fb_end \<le> 4294967296")
    case True
    then have "(unat fb_end + 1073741823) div 1073741824 \<le> (4294967296 + 1073741823) div 1073741824"
      by (intro div_le_mono) simp
    then show ?thesis using True mx by simp
  next
    case False
    then have "(4294967296 + 1073741823) div 1073741824 \<le> (unat fb_end + 1073741823) div 1073741824"
      by (intro div_le_mono) simp
    then show ?thesis using False mx by simp
  qed
  finally show ?thesis by (auto simp: mapped_gb_def fe MAX_PDPT_ENTRIES_def word_less_nat_alt min_def max_def)
qed

definition cleared :: "page_tables \<Rightarrow> memory \<Rightarrow> memory" where
  "cleared pt m = memset (pd pt) 0 (MAX_PDPT_ENTRIES * 512 * 8) (memset (pdpt pt) 0 (512 * 8) (memset (pml4 pt) 0 (512 * 8) m))"

lemma zero_entry: "(\<And>x. x \<in> span a 8 \<Longrightarrow> m x = 0) \<Longrightarrow> load64 m a = 0"
proof -
  assume "\<And>x. x \<in> span a 8 \<Longrightarrow> m x = 0"
  then have "load64 m a = load64 (\<lambda>_. 0) a" by (intro load64_cong) simp
  then show ?thesis by (simp add: load64_def numeral_eq_Suc)
qed

lemma cleared_entry:
  assumes "pt_ok pt"
  shows "k < 512 \<Longrightarrow> load64 (cleared pt m) (pml4 pt + 8 * k) = 0" "i < 512 \<Longrightarrow> load64 (cleared pt m) (pdpt_at pt i) = 0"
proof -
  have *: "span (a + 8 * k) 8 \<subseteq> span a 4096" if "k < 512" for a k :: u64
  proof -
    have "unat k < 512" using that by (simp add: word_less_nat_alt)
    then have "unat (8 * k) = 8 * unat k" "unat k < 512" by (simp_all add: unat_mult_noof)
    then show ?thesis by (intro span_sub) simp_all
  qed
  show "load64 (cleared pt m) (pml4 pt + 8 * k) = 0" if "k < 512"
    using * [OF that, of "pml4 pt"] by (intro zero_entry) (auto simp: cleared_def memset_apply)
  show "load64 (cleared pt m) (pdpt_at pt i) = 0" if "i < 512"
    using * [OF that, of "pdpt pt"] by (intro zero_entry) (auto simp: cleared_def memset_apply pdpt_at_def)
qed

lemma init_tables:
  assumes pt: "pt_ok pt" and n: "n \<le> 64"
  shows "tables pt n (\<lambda>i j. i * GB + j * MB2) (init_pdpt_loop pt n 0 (store64 (pml4 pt) (branch (pdpt pt)) (cleared pt m)))"
    (is "tables pt n ?f (init_pdpt_loop pt n 0 ?m)")
proof -
  have k64: "k < 64 \<and> k < 512" if "k < n" for k using that n by (auto simp: word_less_nat_alt word_le_nat_alt)
  have sep: "pml4 pt + 8 * l \<noteq> pdpt_at pt k" "j < 512 \<Longrightarrow> pml4 pt + 8 * l \<noteq> pd_at pt k j" if "k < n" "l < 512" for k l j
    using entry_inj(5,6) [OF pt, of k 0 k 0 k k l] entry_inj(5) [OF pt, of k j k j k k l] k64 [OF that(1)] that(2) by auto
  have top: "load64 (init_pdpt_loop pt n 0 ?m) (pml4 pt + 8 * l) = load64 ?m (pml4 pt + 8 * l)" if "l < 512" for l
    using init_pdpt_loop_other [OF pt n entry_aligned(1) [OF pt that], of 0] sep [OF _ that] by blast
  have "load64 (init_pdpt_loop pt n 0 ?m) (pml4 pt) = branch (pdpt pt)"
    using top [of 0] by (simp add: load64_store64)
  moreover have "load64 (init_pdpt_loop pt n 0 ?m) (pml4 pt + 8 * l) = 0" if "0 < l" "l < 512" for l
  proof -
    have "unat l \<noteq> 0" using that(1) by (simp add: unat_eq_0 word_neq_0_conv)
    then have "pml4 pt \<noteq> pml4 pt + 8 * l" using entry_address(1) [OF pt that(2)] by (auto simp: word_unat_eq_iff)
    then show ?thesis
      using top [OF that(2)] cleared_entry(1) [OF pt that(2)] entry_aligned(1,2) [OF pt] that(2) by (simp add: load64_store64_aligned)
  qed
  moreover have "load64 (init_pdpt_loop pt n 0 ?m) (pdpt_at pt i) = (if i < n then branch (pd_row pt i) else 0)" if "i < 512" for i
  proof (cases "i < n")
    case True
    then show ?thesis using init_pdpt_loop_entry(1) [OF pt n _ True, of 0 0] by simp
  next
    case False
    have "pdpt_at pt i \<noteq> pdpt_at pt k" "j < 512 \<Longrightarrow> pdpt_at pt i \<noteq> pd_at pt k j" if "k < n" for k j
      using entry_inj(2) [OF pt, of k 0 k 0 i k 0] entry_inj(3) [OF pt, of k j k j i k 0] k64 [OF that] that False \<open>i < 512\<close> by auto
    then have "load64 (init_pdpt_loop pt n 0 ?m) (pdpt_at pt i) = load64 ?m (pdpt_at pt i)"
      using init_pdpt_loop_other [OF pt n entry_aligned(3) [OF pt that], of 0] by blast
    also have "\<dots> = 0"
      using cleared_entry(2) [OF pt that] entry_inj(6) [OF pt, of 0 0 0 0 i i 0] that entry_aligned(2,3) [OF pt]
      by (simp add: load64_store64_aligned)
    finally show ?thesis using False by simp
  qed
  moreover have "load64 (init_pdpt_loop pt n 0 ?m) (pd_at pt i j) = leaf (?f i j)" if "i < n" "j < 512" for i j
    using init_pdpt_loop_entry(2) [OF pt n _ that, of 0] by simp
  ultimately show ?thesis by (simp add: tables_def)
qed

subsection \<open>Start of paging\<close>

lemma init_paging_effect:
  fixes s :: "'a paging_state_scheme"
  assumes pt: "pt_ok pt" and fb: "unat base + unat sz \<le> 18446744072635809792"
  defines "s' \<equiv> init_paging pt base sz s"
  obtains n where "unat n = mapped_gb (unat base + unat sz)" "n \<le> 64" "4 \<le> n"
    "tables pt n (\<lambda>i j. i * GB + j * MB2) (mem s')" "cr3 s' = pml4 pt" "tlb s' = (\<lambda>_. None)"
    "cr0 s' = cr0 s OR push_bit 31 1" "cr4 s' = cr4 s OR push_bit 5 1" "mmio_slots_used s' = 0" "mmio_phys_base s' = replicate 16 0"
proof -
  define r where "r = ((if base + ucast sz > 4 * GB then base + ucast sz else 4 * GB) + GB - 1) div GB"
  define n where "n = (if r > MAX_PDPT_ENTRIES then MAX_PDPT_ENTRIES else r)"
  have n: "unat n = mapped_gb (unat base + unat sz)" unfolding n_def r_def by (rule required_entries [OF fb])
  then have le: "n \<le> 64" "4 \<le> n" by (simp_all add: mapped_gb_def word_le_nat_alt)
  have m: "mem s' = init_pdpt_loop pt n 0 (store64 (pml4 pt) (branch (pdpt pt)) (cleared pt (mem s)))"
    unfolding s'_def init_paging_def by (auto simp: serial_simps Let_def r_def [symmetric] n_def [symmetric] branch_def cleared_def
        write_cr3_def enable_paging_def split: prod.split) (simp_all add: n_def)
  show thesis
  proof (rule that [OF n le])
    show "tables pt n (\<lambda>i j. i * GB + j * MB2) (mem s')" unfolding m by (rule init_tables [OF pt le(1)])
    show "cr3 s' = pml4 pt" "tlb s' = (\<lambda>_. None)"
      "cr0 s' = cr0 s OR push_bit 31 1" "cr4 s' = cr4 s OR push_bit 5 1" "mmio_slots_used s' = 0" "mmio_phys_base s' = replicate 16 0"
      by (simp_all add: s'_def init_paging_def serial_simps Let_def write_cr3_def enable_paging_def split: prod.split)
  qed
qed

text \<open>
  C31: After \<open>init_paging\<close> paging is on and the processor translates every address to itself up
  to the limit chosen, 4 GB or the end of the framebuffer rounded up to a gigabyte but at most
  64 GB, and faults beyond. The translation buffer agrees with the tables.
\<close>

theorem init_paging_identity:
  fixes s :: "'a paging_state_scheme"
  assumes "pt_ok pt" "unat base + unat sz \<le> 18446744072635809792"
  defines "s' \<equiv> init_paging pt base sz s"
  shows "bit (cr0 s') 31 \<and> bit (cr4 s') 5 \<and> tlb_coherent s' \<and>
    (\<forall>va. mmu s' va = (if unat va < mapped_gb (unat base + unat sz) * 1073741824 then Some va else None))"
proof (rule init_paging_effect [OF assms(1,2), of s, folded s'_def])
  fix n
  assume n: "unat n = mapped_gb (unat base + unat sz)" "n \<le> 64" and
    e: "tables pt n (\<lambda>i j. i * GB + j * MB2) (mem s')" "cr3 s' = pml4 pt" "tlb s' = (\<lambda>_. None)"
      "cr0 s' = cr0 s OR push_bit 31 1" "cr4 s' = cr4 s OR push_bit 5 1"
  have "walk (mem s') (pml4 pt) va = (if unat va < unat n * 1073741824 then Some va else None)" for va
  proof -
    have f: "page_addr (i * GB + j * MB2)" if "i < n" "j < 512" for i j
      using that n(2) by (intro page_addr_identity) simp_all
    have "unat n \<le> 64" using n(2) by (simp add: word_le_nat_alt)
    then have "unat va < 68719476736" if "unat va < unat n * 1073741824" using that by linarith
    then show ?thesis using walk_tables [OF assms(1) e(1) n(2) f] identity_page by auto
  qed
  then show ?thesis using e n(1) by (simp add: mmu_def tlb_coherent_def bit_simps)
qed

definition demo_pt :: page_tables where
  "demo_pt = \<lparr>pml4 = 0x100000, pdpt = 0x101000, pd = 0x102000\<rparr>"

definition demo_paging :: paging_state where
  "demo_paging = file_state.extend demo_files
     (paging_state.fields 0x11 0 0 (\<lambda>_. None) (replicate 16 0) 0)"

lemma demo_pt_ok: "pt_ok demo_pt"
  by (simp add: pt_ok_def demo_pt_def)

theorem init_paging_identity_witness:
  "mmu (init_paging demo_pt 0xC0000000 0x300000 demo_paging) 0xB8000 = Some 0xB8000"
  using init_paging_identity [OF demo_pt_ok, of "0xC0000000" "0x300000" demo_paging] by (simp add: mapped_gb_def)

subsection \<open>Device memory above 4 GB\<close>

text \<open>
  The windows in use are the pages 384 on of the fourth gigabyte; every other page is mapped
  to itself.
\<close>

definition mmio_map :: "'a paging_state_scheme \<Rightarrow> u64 \<Rightarrow> u64 \<Rightarrow> u64" where
  "mmio_map s i j =
     (if i = 3 \<and> 384 \<le> unat j \<and> unat j < 384 + unat (mmio_slots_used s) then mmio_phys_base s ! (unat j - 384)
      else i * GB + j * MB2)"

definition mmio_tables :: "page_tables \<Rightarrow> u64 \<Rightarrow> 'a paging_state_scheme \<Rightarrow> bool" where
  "mmio_tables pt n s \<longleftrightarrow> pt_ok pt \<and> 4 \<le> n \<and> n \<le> 64 \<and> cr3 s = pml4 pt \<and> length (mmio_phys_base s) = 16 \<and>
     unat (mmio_slots_used s) \<le> 16 \<and> (\<forall>k < unat (mmio_slots_used s). page_addr (mmio_phys_base s ! k)) \<and>
     tables pt n (mmio_map s) (mem s)"

definition mmio_inv :: "page_tables \<Rightarrow> u64 \<Rightarrow> 'a paging_state_scheme \<Rightarrow> bool" where
  "mmio_inv pt n s \<longleftrightarrow> mmio_tables pt n s \<and> tlb_coherent s"

lemma init_paging_inv:
  assumes "pt_ok pt" "unat base + unat sz \<le> 18446744072635809792"
  shows "\<exists>n. mmio_inv pt n (init_paging pt base sz s)"
proof (rule init_paging_effect [OF assms, of s])
  fix n assume "n \<le> 64" "4 \<le> n" "tables pt n (\<lambda>i j. i * GB + j * MB2) (mem (init_paging pt base sz s))"
    "cr3 (init_paging pt base sz s) = pml4 pt" "tlb (init_paging pt base sz s) = (\<lambda>_. None)"
    "mmio_slots_used (init_paging pt base sz s) = 0" "mmio_phys_base (init_paging pt base sz s) = replicate 16 0"
  moreover have "mmio_map (init_paging pt base sz s) = (\<lambda>i j. i * GB + j * MB2)"
    using calculation(6) by (auto simp: mmio_map_def fun_eq_iff)
  ultimately have "mmio_inv pt n (init_paging pt base sz s)"
    using assms(1) by (simp add: mmio_inv_def mmio_tables_def tlb_coherent_def)
  then show ?thesis ..
qed

lemma mmio_walk:
  assumes "mmio_tables pt n s"
  shows "walk (mem s) (cr3 s) va = (if unat va < unat n * 1073741824
    then Some (mmio_map s (level_index 30 va) (level_index 21 va) OR take_bit 21 va) else None)"
proof -
  have i: "pt_ok pt" "n \<le> 64" "tables pt n (mmio_map s) (mem s)" "cr3 s = pml4 pt"
    using assms by (simp_all add: mmio_tables_def)
  have "page_addr (mmio_map s i j)" if "i < n" "j < 512" for i j
  proof (cases "i = 3 \<and> 384 \<le> unat j \<and> unat j < 384 + unat (mmio_slots_used s)")
    case True
    then have "unat j - 384 < unat (mmio_slots_used s)" by linarith
    then show ?thesis using True assms by (simp add: mmio_map_def mmio_tables_def)
  next
    case False
    then have "mmio_map s i j = i * GB + j * MB2" by (simp only: mmio_map_def if_False)
    then show ?thesis using that i(2) page_addr_identity [of i j] by simp
  qed
  from walk_tables [OF i(1,3,2) this, of va, folded i(4)] show ?thesis .
qed

lemma mmio_mmu: "mmio_inv pt n s \<Longrightarrow> mmu s va = walk (mem s) (cr3 s) va"
  by (auto simp: mmio_inv_def mmu_def tlb_coherent_def split: option.splits)

text \<open>The page of window \<open>k\<close>.\<close>

lemma window_index:
  fixes k :: u32
  assumes "unat k < 16"
  defines "v \<equiv> MMIO_WINDOW_BASE + ucast k * MB2"
  shows "unat v = 4026531840 + 2097152 * unat k" "drop_bit 30 v AND 0x1FF = 3" "drop_bit 21 v AND 0x1FF = 384 + ucast k"
proof -
  have "unat (ucast k * MB2) = unat k * 2097152" using assms(1) by (simp add: MB2_def unat_mult_noof)
  then show u: "unat v = 4026531840 + 2097152 * unat k"
    unfolding v_def MMIO_WINDOW_BASE_def using assms(1) by (subst unat_add_noof) simp_all
  have "x AND 0x1FF = take_bit 9 x" for x :: u64 by (simp add: take_bit_eq_mask mask_eq_exp_minus_1)
  then have t: "unat (x AND 0x1FF) = unat x mod 512" for x :: u64 using unat_bits(1) [of 9 x] by (simp only:) simp
  have "unat (drop_bit 30 v) = unat v div 1073741824" "unat (drop_bit 21 v) = unat v div 2097152"
    using unat_bits(2) [of 30 v] unat_bits(2) [of 21 v] by (simp_all only:) simp_all
  moreover have "unat v div 1073741824 = 3" using assms(1) unfolding u by (intro div_nat_eqI) simp_all
  moreover have "unat v div 2097152 = 1920 + unat k" unfolding u by simp
  moreover have "unat (384 + ucast k :: u64) = 384 + unat k" using assms(1) by (subst unat_add_noof) simp_all
  moreover have "(1920 + unat k) mod 512 = 384 + unat k"
    using assms(1) mod_mult_self1 [of "384 + unat k" 3 512] by simp
  ultimately have "unat (drop_bit 30 v AND 0x1FF) = unat (3 :: u64)" "unat (drop_bit 21 v AND 0x1FF) = unat (384 + ucast k :: u64)"
    using assms(1) by (simp_all add: t)
  then show "drop_bit 30 v AND 0x1FF = 3" "drop_bit 21 v AND 0x1FF = 384 + ucast k" by (simp_all only: word_unat_eq_iff)
qed

lemma mmio_find_loop_spec:
  "case mmio_find_loop b i s of
     Some k \<Rightarrow> i \<le> k \<and> k < mmio_slots_used s \<and> mmio_phys_base s ! unat k = b
   | None \<Rightarrow> \<forall>k. unat i \<le> k \<and> k < unat (mmio_slots_used s) \<longrightarrow> mmio_phys_base s ! k \<noteq> b"
proof (induction b i s rule: mmio_find_loop.induct)
  case (1 b i s)
  show ?case
  proof (cases "i < mmio_slots_used s \<and> mmio_phys_base s ! unat i \<noteq> b")
    case True
    have up: "unat (i + 1) = Suc (unat i)" using unat_inc_less [of i] True by blast
    have "mmio_find_loop b i s = mmio_find_loop b (i + 1) s" using True by (simp add: mmio_find_loop.simps [of b i s])
    moreover have "unat i \<le> k \<longleftrightarrow> k = unat i \<or> unat (i + 1) \<le> k" for k using up by auto
    ultimately show ?thesis using 1 True up by (auto simp: word_le_nat_alt split: option.splits)
  next
    case False
    then show ?thesis by (auto simp: mmio_find_loop.simps [of b i s] word_less_nat_alt)
  qed
qed

lemma base_offset:
  fixes a :: u64
  assumes "unat a < 4503599627370496"
  defines "b \<equiv> a AND NOT (MB2 - 1)"
  shows "page_addr b" "a - b = take_bit 21 a" "b OR take_bit 21 a = a"
proof -
  have nm: "NOT (MB2 - 1) = NOT (mask 21)" by (simp add: MB2_def mask_eq_exp_minus_1)
  show "b OR take_bit 21 a = a" unfolding b_def nm by (rule bit_word_eqI) (auto simp: bit_simps)
  have "b = push_bit 21 (drop_bit 21 a)" unfolding b_def nm by (rule bit_word_eqI) (auto simp: bit_simps)
  then have "b + take_bit 21 a = a" by (simp only: bits_ident)
  then show "a - b = take_bit 21 a" by (metis add_diff_cancel_left')
  have "\<not> bit a n" if "52 \<le> n" for n
  proof -
    have "unat (drop_bit 52 a) = 0" using assms(1) unat_bits(2) [of 52 a] by (simp only:) simp
    then have "drop_bit 52 a = 0" by (simp only: unat_eq_0)
    then show ?thesis using that by (rule high_bits_clear)
  qed
  then show "page_addr b" unfolding page_addr_def b_def nm by (auto intro!: bit_word_eqI simp: bit_simps)
qed

lemma window_levels:
  fixes k :: u32
  assumes "unat k < 16" "unat off < 2097152"
  defines "v \<equiv> MMIO_WINDOW_BASE + ucast k * MB2"
  shows "unat (v + off) = 4026531840 + 2097152 * unat k + unat off" "drop_bit 21 (v + off) = drop_bit 21 v"
    "level_index 30 (v + off) = 3" "level_index 21 (v + off) = 384 + ucast k" "take_bit 21 (v + off) = off"
proof -
  note w = window_index [OF assms(1), folded v_def]
  show u: "unat (v + off) = 4026531840 + 2097152 * unat k + unat off"
    using w(1) assms(1,2) by (subst unat_add_noof) simp_all
  have d: "unat (v + off) div 2097152 = 1920 + unat k" unfolding u using assms(2) by (intro div_nat_eqI) simp_all
  have "unat v div 2097152 = 1920 + unat k" unfolding w(1) by simp
  then have "unat (drop_bit 21 (v + off)) = unat (drop_bit 21 v)"
    using d unat_bits(2) [of 21 v] unat_bits(2) [of 21 "v + off"] by (simp only:) simp
  then show dv: "drop_bit 21 (v + off) = drop_bit 21 v" by (simp only: word_unat_eq_iff)
  have a: "x AND 0x1FF = take_bit 9 x" for x :: u64 by (simp add: take_bit_eq_mask mask_eq_exp_minus_1)
  show "level_index 21 (v + off) = 384 + ucast k" using w(3) dv by (simp only: level_index_def a)
  have "drop_bit 30 x = drop_bit 9 (drop_bit 21 x)" for x :: u64 by simp
  then show "level_index 30 (v + off) = 3" using w(2) dv by (simp only: level_index_def a)
  have "unat (v + off) mod 2097152 = unat off"
    unfolding u using assms(2) mod_mult_self2 [of "unat off" 2097152 "1920 + unat k"] by (simp add: algebra_simps)
  then have "unat (take_bit 21 (v + off)) = unat off" using unat_bits(1) [of 21 "v + off"] by (simp only:) simp
  then show "take_bit 21 (v + off) = off" by (simp only: word_unat_eq_iff)
qed

lemma window_page:
  fixes k :: u32
  assumes "unat k < 16" "unat va < 68719476736" "level_index 30 va = 3" "level_index 21 va = 384 + ucast k"
  shows "drop_bit 21 va = drop_bit 21 (MMIO_WINDOW_BASE + ucast k * MB2)"
proof -
  let ?v = "MMIO_WINDOW_BASE + ucast k * MB2 :: u64"
  have "unat (384 + ucast k :: u64) = 384 + unat k" using assms(1) by (subst unat_add_noof) simp_all
  then have "unat va div 2097152 = 1920 + unat k" using page_number(2) [OF assms(2)] assms(3,4) by simp
  moreover have "unat ?v div 2097152 = 1920 + unat k" unfolding window_index(1) [OF assms(1)] by simp
  ultimately have "unat (drop_bit 21 va) = unat (drop_bit 21 ?v)"
    using unat_bits(2) [of 21 va] unat_bits(2) [of 21 ?v] by (simp only:) simp
  then show ?thesis by (simp only: word_unat_eq_iff)
qed

text \<open>The state after a new window has been opened for the 2 MB at \<open>b\<close>.\<close>

definition open_window :: "page_tables \<Rightarrow> u64 \<Rightarrow> 'a paging_state_scheme \<Rightarrow> 'a paging_state_scheme" where
  "open_window pt b s =
     (let k = mmio_slots_used s
      in s\<lparr>mem := store64 (pd_at pt 3 (384 + ucast k)) (leaf b) (store64 (pdpt_at pt 3) (branch (pd_row pt 3)) (mem s)),
           tlb := (tlb s)(drop_bit 21 (MMIO_WINDOW_BASE + ucast k * MB2) := None),
           mmio_phys_base := (mmio_phys_base s)[unat k := b], mmio_slots_used := k + 1\<rparr>)"

lemma open_window_map:
  fixes s :: "'a paging_state_scheme"
  assumes "mmio_tables pt n s" "unat (mmio_slots_used s) < 16"
  shows "mmio_map (open_window pt b s) i j = (if i = 3 \<and> j = 384 + ucast (mmio_slots_used s) then b else mmio_map s i j)"
proof -
  let ?k = "mmio_slots_used s"
  have len: "length (mmio_phys_base s) = 16" using assms(1) by (simp add: mmio_tables_def)
  have k1: "unat (?k + 1) = Suc (unat ?k)" using assms(2) by (subst unat_add_noof) simp_all
  have "unat (384 + ucast ?k :: u64) = 384 + unat ?k" using assms(2) by (subst unat_add_noof) simp_all
  then have "j = 384 + ucast ?k \<longleftrightarrow> unat j = 384 + unat ?k" by (simp add: word_unat_eq_iff)
  then show ?thesis using len assms(2) k1 by (auto simp: mmio_map_def open_window_def Let_def nth_list_update)
qed

lemma open_window_tables:
  fixes s :: "'a paging_state_scheme"
  assumes t: "mmio_tables pt n s" and k: "unat (mmio_slots_used s) < 16" and b: "page_addr b"
  shows "mmio_tables pt n (open_window pt b s)"
proof -
  let ?k = "mmio_slots_used s" and ?j = "384 + ucast (mmio_slots_used s) :: u64" and ?s = "open_window pt b s"
  have t': "pt_ok pt" "4 \<le> n" "n \<le> 64" "tables pt n (mmio_map s) (mem s)" "length (mmio_phys_base s) = 16"
    using t by (simp_all add: mmio_tables_def)
  have k1: "unat (?k + 1) = Suc (unat ?k)" using k by (subst unat_add_noof) simp_all
  have "unat ?j = 384 + unat ?k" using k by (subst unat_add_noof) simp_all
  then have j: "?j < 512" using k by (simp add: word_less_nat_alt)
  have n3: "(3 :: u64) < n" using t'(2) by (simp add: word_less_nat_alt word_le_nat_alt)
  have i64: "i < 64" if "i < n" for i using that t'(3) by simp
  note al = entry_aligned [OF t'(1)]
  have "load64 (mem ?s) (pml4 pt + 8 * l) = load64 (mem s) (pml4 pt + 8 * l)" if "l < 512" for l
    using entry_inj(5,6) [OF t'(1), of 3 ?j 3 ?j 3 3 l] j that al
    by (simp add: open_window_def Let_def load64_store64_aligned)
  from this [of 0] this have e4: "load64 (mem ?s) (pml4 pt) = load64 (mem s) (pml4 pt)"
    "\<And>l. l < 512 \<Longrightarrow> load64 (mem ?s) (pml4 pt + 8 * l) = load64 (mem s) (pml4 pt + 8 * l)" by simp_all
  have e3: "load64 (mem ?s) (pdpt_at pt i) = load64 (mem s) (pdpt_at pt i)" if "i < 512" for i
    using entry_inj(2-4) [OF t'(1), of 3 ?j 3 ?j 3 i 0] entry_inj(3) [OF t'(1), of 3 ?j 3 ?j i 3 0] j that al t'(4) n3
    by (auto simp: open_window_def Let_def load64_store64_aligned tables_def)
  have e2: "load64 (mem ?s) (pd_at pt i l) = (if i = 3 \<and> l = ?j then leaf b else load64 (mem s) (pd_at pt i l))"
    if "i < n" "l < 512" for i l
    using entry_inj(1,3) [OF t'(1), of 3 ?j i l 3 3 0] entry_inj(3) [OF t'(1), of i l i l 3 3 0] j that al i64
    by (auto simp: open_window_def Let_def load64_store64_aligned)
  have "tables pt n (mmio_map ?s) (mem ?s)"
    using t'(4) e2 e3 e4 unfolding tables_def open_window_map [OF t k] by auto
  then show ?thesis
    using t k b k1 by (auto simp: mmio_tables_def open_window_def Let_def nth_list_update)
qed

lemma open_window_inv:
  fixes s :: "'a paging_state_scheme"
  assumes inv: "mmio_inv pt n s" and k: "unat (mmio_slots_used s) < 16" and b: "page_addr b"
  defines "v \<equiv> MMIO_WINDOW_BASE + ucast (mmio_slots_used s) * MB2"
  shows "mmio_inv pt n (open_window pt b s)"
    and "drop_bit 21 va \<noteq> drop_bit 21 v \<Longrightarrow> mmu (open_window pt b s) va = mmu s va"
proof -
  let ?s = "open_window pt b s"
  have t: "mmio_tables pt n s" and n: "n \<le> 64" using inv by (simp_all add: mmio_inv_def mmio_tables_def)
  note t' = open_window_tables [OF t k b]
  have n64: "unat n * 1073741824 \<le> 68719476736" using n by (simp add: word_le_nat_alt)
  have w: "walk (mem ?s) (cr3 ?s) x = walk (mem s) (cr3 s) x" if "drop_bit 21 x \<noteq> drop_bit 21 v" for x
  proof (cases "unat x < unat n * 1073741824")
    case True
    then have "\<not> (level_index 30 x = 3 \<and> level_index 21 x = 384 + ucast (mmio_slots_used s))"
      using window_page [OF k, of x] n64 that by (auto simp: v_def)
    then show ?thesis unfolding mmio_walk [OF t] mmio_walk [OF t'] open_window_map [OF t k] by auto
  qed (simp add: mmio_walk [OF t] mmio_walk [OF t'])
  have "tlb ?s = (tlb s)(drop_bit 21 v := None)" by (simp add: open_window_def Let_def v_def)
  then have "tlb_coherent ?s" using inv w by (auto simp: mmio_inv_def tlb_coherent_def split: if_splits)
  then show i: "mmio_inv pt n ?s" using t' by (simp add: mmio_inv_def)
  show "mmu ?s va = mmu s va" if "drop_bit 21 va \<noteq> drop_bit 21 v"
    using w [OF that] mmio_mmu [OF i] mmio_mmu [OF inv] by simp
qed

lemma window_translation:
  assumes "mmio_inv pt n s" "k < mmio_slots_used s" "unat a < 4503599627370496" "mmio_phys_base s ! unat k = a AND NOT (MB2 - 1)"
  shows "mmu s (MMIO_WINDOW_BASE + ucast k * MB2 + (a - (a AND NOT (MB2 - 1)))) = Some a"
proof -
  have t: "mmio_tables pt n s" using assms(1) by (simp add: mmio_inv_def)
  then have k: "unat k < 16" and n: "4 \<le> unat n" using assms(2) by (simp_all add: mmio_tables_def word_less_nat_alt word_le_nat_alt)
  note o = base_offset [OF assms(3)]
  have off: "unat (take_bit 21 a) < 2097152" using unat_bits(1) [of 21 a] by simp
  note l = window_levels [OF k off]
  have "unat (384 + ucast k :: u64) = 384 + unat k" using k by (subst unat_add_noof) simp_all
  then have "mmio_map s 3 (384 + ucast k) = a AND NOT (MB2 - 1)"
    using assms(2,4) by (simp add: mmio_map_def word_less_nat_alt)
  then show ?thesis
    unfolding mmio_mmu [OF assms(1)] mmio_walk [OF t] o(2) l using o(3) n k off by simp
qed

lemma map_mmio_new:
  assumes "mmio_inv pt n s" "\<not> a < 4 * GB" "mmio_find_loop (a AND NOT (MB2 - 1)) 0 s = None" "unat (mmio_slots_used s) < 16"
  shows "map_mmio_virt pt a s = (MMIO_WINDOW_BASE + ucast (mmio_slots_used s) * MB2 + (a - (a AND NOT (MB2 - 1))),
    open_window pt (a AND NOT (MB2 - 1)) s)"
proof -
  have "\<not> MMIO_WINDOW_SLOTS \<le> mmio_slots_used s" using assms(4) by (simp add: MMIO_WINDOW_SLOTS_def word_le_nat_alt)
  then show ?thesis
    unfolding map_mmio_virt_def Let_def window_index(2,3) [OF assms(4)] using assms(2,3)
    by (simp add: open_window_def Let_def invlpg_addr_def leaf_def branch_def MAX_PDPT_ENTRIES_def)
qed

text \<open>
  C32: \<open>map_mmio_virt\<close> of a physical address above 4 GB returns an address that the processor
  translates to it, reusing the window of its 2 MB page if there is one and else opening a new
  one; the translation of every address outside that window's page stays as it was, stale
  entries of the translation buffer included. It fails, changing no translation, only when all
  16 windows are in use for other pages.
\<close>

theorem map_mmio_virt_correct:
  fixes s :: "'a paging_state_scheme"
  assumes inv: "mmio_inv pt n s" and a: "\<not> a < 4 * GB" "unat a < 4503599627370496"
  defines "v \<equiv> fst (map_mmio_virt pt a s)" and "s' \<equiv> snd (map_mmio_virt pt a s)"
  shows "mmio_inv pt n s' \<and>
    (if v = NULL then unat (mmio_slots_used s) = 16 \<and> (\<forall>k < 16. mmio_phys_base s ! k \<noteq> a AND NOT (MB2 - 1)) \<and> mmu s' = mmu s
     else mmu s' v = Some a \<and> (\<forall>va. drop_bit 21 va \<noteq> drop_bit 21 v \<longrightarrow> mmu s' va = mmu s va))"
proof -
  let ?b = "a AND NOT (MB2 - 1)"
  have t: "unat (mmio_slots_used s) \<le> 16" "length (mmio_phys_base s) = 16" using inv by (simp_all add: mmio_inv_def mmio_tables_def)
  note o = base_offset [OF a(2)]
  have off: "unat (a - ?b) < 2097152" using o(2) unat_bits(1) [of 21 a] by simp
  have nz: "MMIO_WINDOW_BASE + ucast k * MB2 + (a - ?b) \<noteq> NULL" if "unat k < 16" for k :: u32
    using window_levels(1) [OF that off] by (auto simp: word_unat_eq_iff)
  show ?thesis
  proof (cases "mmio_find_loop ?b 0 s")
    case (Some k)
    then have r: "v = MMIO_WINDOW_BASE + ucast k * MB2 + (a - ?b)" "s' = s"
      using a(1) by (simp_all add: v_def s'_def map_mmio_virt_def Let_def)
    have k: "k < mmio_slots_used s" "mmio_phys_base s ! unat k = ?b" using mmio_find_loop_spec [where b = ?b and i = 0 and s = s] Some by simp_all
    then show ?thesis using r nz [of k] t(1) window_translation [OF inv k(1) a(2) k(2)] inv by (simp add: word_less_nat_alt)
  next
    case None
    show ?thesis
    proof (cases "unat (mmio_slots_used s) < 16")
      case True
      let ?k = "mmio_slots_used s"
      have r: "v = MMIO_WINDOW_BASE + ucast ?k * MB2 + (a - ?b)" "s' = open_window pt ?b s"
        using map_mmio_new [OF inv a(1) None True] by (simp_all add: v_def s'_def)
      note i = open_window_inv [OF inv True o(1)]
      have k: "?k < mmio_slots_used s'" "mmio_phys_base s' ! unat ?k = ?b"
        using True t(2) unat_inc_less [of ?k 16] by (simp_all add: r(2) open_window_def Let_def word_less_nat_alt)
      show ?thesis
        using r nz [OF True] window_translation [OF i(1) [folded r(2)] k(1) a(2) k(2)] i window_levels(2) [OF True off] by auto
    next
      case False
      have full: "MMIO_WINDOW_SLOTS \<le> mmio_slots_used s" using False by (simp add: MMIO_WINDOW_SLOTS_def word_le_nat_alt)
      have r: "v = NULL" "s' = s\<lparr>serial_out := serial_out s'\<rparr>"
        using a(1) None full by (simp_all add: v_def s'_def map_mmio_virt_def Let_def serial_simps)
      have "mmio_inv pt n (s\<lparr>serial_out := x\<rparr>)" "mmu (s\<lparr>serial_out := x\<rparr>) = mmu s" for x
      proof -
        have "mmio_map (s\<lparr>serial_out := x\<rparr>) = mmio_map s" by (intro ext) (auto simp: mmio_map_def)
        then show "mmio_inv pt n (s\<lparr>serial_out := x\<rparr>)" using inv by (auto simp: mmio_inv_def mmio_tables_def tlb_coherent_def)
        show "mmu (s\<lparr>serial_out := x\<rparr>) = mmu s" by (intro ext) (auto simp: mmu_def split: option.split)
      qed
      from this [of "serial_out s'"] have "mmio_inv pt n s'" "mmu s' = mmu s" unfolding r(2) [symmetric] .
      moreover have "unat (mmio_slots_used s) = 16" using False t(1) by simp
      ultimately show ?thesis using r(1) mmio_find_loop_spec [where b = ?b and i = 0 and s = s] None by simp
    qed
  qed
qed

lemma demo_mmio:
  fixes s :: "paging_state"
  defines "s \<equiv> init_paging demo_pt 0xC0000000 0x300000 demo_paging"
  obtains n where "mmio_inv demo_pt n s" "mmio_slots_used s = 0" "mmio_phys_base s = replicate 16 0"
proof -
  have "mmio_slots_used s = 0" "mmio_phys_base s = replicate 16 0"
    by (simp_all add: s_def init_paging_def serial_simps Let_def write_cr3_def enable_paging_def split: prod.split)
  then show thesis using that init_paging_inv [OF demo_pt_ok, of "0xC0000000" "0x300000" demo_paging] by (auto simp: s_def)
qed

theorem map_mmio_virt_correct_witness:
  "\<exists>v s'. map_mmio_virt demo_pt 0x1234567890 (init_paging demo_pt 0xC0000000 0x300000 demo_paging) = (v, s') \<and>
     mmu s' v = Some 0x1234567890"
proof -
  let ?s = "init_paging demo_pt 0xC0000000 0x300000 demo_paging"
  obtain n where n: "mmio_inv demo_pt n ?s" "mmio_slots_used ?s = 0" by (rule demo_mmio)
  have "\<not> (0x1234567890 :: u64) < 4 * GB" by (simp add: GB_def)
  from map_mmio_virt_correct [OF n(1) this] n(2)
  have "mmu (snd (map_mmio_virt demo_pt 0x1234567890 ?s)) (fst (map_mmio_virt demo_pt 0x1234567890 ?s)) = Some 0x1234567890"
    by (simp split: if_splits)
  then show ?thesis by (intro exI conjI) (rule prod.collapse [symmetric])
qed



end
