(* ===== verification/Display_Properties.thy ===== *)
theory Display_Properties
  imports GPU_Driver Paging_Properties
begin

text \<open>
  Properties of the display: filling a rectangle against its definition on the screen, the
  exchange of a command with the device, and the search for the device on the bus.
\<close>

subsection \<open>Filling a rectangle\<close>

text \<open>The framebuffer lies in memory without wrap-around; pixel \<open>i\<close> is its \<open>i\<close>-th word.\<close>

definition screen_ok :: "'a gpu_state_scheme \<Rightarrow> bool" where
  "screen_ok s \<longleftrightarrow> g_gpu_ready s \<noteq> 0 \<and> g_gpu_fb s \<noteq> NULL \<and>
     unat (g_gpu_fb s) + 4 * (unat (g_gpu_width s) * unat (g_gpu_height s)) \<le> 18446744073709551616"


definition pixels :: "'a gpu_state_scheme \<Rightarrow> nat" where
  "pixels s = unat (g_gpu_width s) * unat (g_gpu_height s)"


text \<open>Writing one pixel.\<close>

definition put_pixel :: "nat \<Rightarrow> u32 \<Rightarrow> 'a gpu_state_scheme \<Rightarrow> 'a gpu_state_scheme" where
  "put_pixel i c s = s\<lparr>mem := store32 (g_gpu_fb s + 4 * of_nat i) c (mem s)\<rparr>"

lemma put_pixel_sel [simp]:
  "g_gpu_fb (put_pixel i c s) = g_gpu_fb s" "g_gpu_width (put_pixel i c s) = g_gpu_width s"
  "g_gpu_height (put_pixel i c s) = g_gpu_height s" "g_gpu_ready (put_pixel i c s) = g_gpu_ready s"
  "screen_ok (put_pixel i c s) = screen_ok s" "pixels (put_pixel i c s) = pixels s"
  by (simp_all add: put_pixel_def screen_ok_def pixels_def)















definition demo_screen :: gpu_state where
  "demo_screen = paging_state.extend demo_paging (gpu_state.fields [] 1 640 480 0x300000
     \<lparr>queue_index = 0, queue_size = 2, desc = 0x400000, avail = 0x400020, used_ring = 0x400030, avail_idx = 0,
      used_idx_seen = 0, notify_addr = 0x500000\<rparr>)"



subsection \<open>Finding the device\<close>

text \<open>
  A host bridge answers a read of the data port with the register that the last write to the
  address port selected; \<open>cfg\<close> is the configuration space it gives access to.
\<close>

definition pci_bus :: "io_env \<Rightarrow> (u32 \<Rightarrow> u32) \<Rightarrow> bool" where
  "pci_bus env cfg \<longleftrightarrow> (\<forall>l a. env (In32 PCI_CONFIG_DATA # Out32 PCI_CONFIG_ADDRESS a # l) = cfg a)"

definition present :: "(u32 \<Rightarrow> u32) \<Rightarrow> u8 \<Rightarrow> u8 \<Rightarrow> u8 \<Rightarrow> bool" where
  "present cfg b d f \<longleftrightarrow> (ucast (cfg (pci_address b d f 0) AND 0xFFFF) :: u16) \<noteq> 0xFFFF"

definition is_gpu :: "(u32 \<Rightarrow> u32) \<Rightarrow> u8 \<Rightarrow> u8 \<Rightarrow> u8 \<Rightarrow> bool" where
  "is_gpu cfg b d f \<longleftrightarrow> (ucast (cfg (pci_address b d f 0) AND 0xFFFF) :: u16) = VIRTIO_VENDOR_ID \<and>
     (ucast (drop_bit 16 (cfg (pci_address b d f 0)) AND 0xFFFF) :: u16) = VIRTIO_GPU_DEVICE_ID"

definition multi_function :: "(u32 \<Rightarrow> u32) \<Rightarrow> u8 \<Rightarrow> u8 \<Rightarrow> bool" where
  "multi_function cfg b d \<longleftrightarrow> drop_bit 16 (cfg (pci_address b d 0 0x0C)) AND 0x80 \<noteq> 0"

text \<open>The functions on the bus in the order of bus, device and function number.\<close>

definition device_functions :: "(u32 \<Rightarrow> u32) \<Rightarrow> u8 \<Rightarrow> u8 \<Rightarrow> u8 list" where
  "device_functions cfg b d =
     (if \<not> present cfg b d 0 then []
      else if multi_function cfg b d then filter (present cfg b d) (map of_nat [0..<8]) else [0])"

definition pci_functions :: "(u32 \<Rightarrow> u32) \<Rightarrow> (u8 \<times> u8 \<times> u8) list" where
  "pci_functions cfg = [(of_nat b, of_nat d, f). b \<leftarrow> [0..<256], d \<leftarrow> [0..<32], f \<leftarrow> device_functions cfg (of_nat b) (of_nat d)]"

definition location :: "virtio_gpu_pci \<Rightarrow> u8 \<times> u8 \<times> u8" where
  "location g = (gpu_bus g, gpu_dev g, gpu_func g)"

lemma pci_read_config_value:
  assumes "pci_bus env cfg"
  shows "pci_read_config env b d f off s = (cfg (pci_address b d f off),
    s\<lparr>io_log := In32 PCI_CONFIG_DATA # Out32 PCI_CONFIG_ADDRESS (pci_address b d f off) # io_log s\<rparr>)"
  using assms by (simp add: pci_read_config_def pci_bus_def inl_def outl_def Let_def)

lemma gpu_present: "is_gpu cfg b d f \<Longrightarrow> present cfg b d f"
  by (simp add: is_gpu_def present_def VIRTIO_VENDOR_ID_def)

lemma find_filter: "(\<And>x. P x \<Longrightarrow> Q x) \<Longrightarrow> find P (filter Q xs) = find P xs"
  by (induction xs) auto

lemma find_append: "find P (xs @ ys) = (case find P xs of None \<Rightarrow> find P ys | Some x \<Rightarrow> Some x)"
  by (induction xs) auto

lemma find_map_pair: "find (\<lambda>(b, d, f). P b d f) (map (\<lambda>f. (b, d, f)) xs) = map_option (\<lambda>f. (b, d, f)) (find (P b d) xs)"
  by (induction xs) auto

lemma find_func_found:
  assumes "pci_bus env cfg" "is_gpu cfg b d f" "f < 8"
  shows "map_option location (fst (find_func_loop env init b d f s)) = Some (b, d, f)"
  using assms gpu_present [OF assms(2)]
  by (subst find_func_loop.simps)
    (auto simp: pci_read_config_value is_gpu_def present_def location_def Let_def VIRTIO_VENDOR_ID_def split: prod.split)

lemma find_func_next:
  assumes "pci_bus env cfg" "\<not> is_gpu cfg b d f" "f < 8"
  shows "\<exists>s'. find_func_loop env init b d f s =
    (if f = 0 \<and> \<not> (present cfg b d 0 \<and> multi_function cfg b d) then (None, s') else find_func_loop env init b d (f + 1) s')"
  using assms
  by (subst find_func_loop.simps)
    (auto simp: pci_read_config_value is_gpu_def present_def multi_function_def Let_def)

lemma find_func_tail:
  assumes "pci_bus env cfg" "f \<noteq> 0"
  shows "map_option location (fst (find_func_loop env init b d f s)) =
    map_option (\<lambda>f. (b, d, f)) (find (is_gpu cfg b d) (map of_nat [unat f..<8]))"
  using assms(2)
proof (induction "8 - unat f" arbitrary: f s)
  case 0
  then have "\<not> f < 8" by (simp add: word_less_nat_alt)
  then show ?case using 0 by (subst find_func_loop.simps) simp
next
  case (Suc n)
  then have f: "f < 8" "[unat f..<8] = unat f # [unat (f + 1)..<8]"
    using unat_inc_less [of f 8] by (simp_all add: word_less_nat_alt upt_conv_Cons)
  have ne: "f + 1 \<noteq> 0" using unat_inc_less [OF f(1)] by (metis nat.distinct(1) unat_0)
  show ?case
  proof (cases "is_gpu cfg b d f")
    case True
    then show ?thesis using find_func_found [OF assms(1) True f(1)] f(2) by simp
  next
    case False
    obtain s' where "find_func_loop env init b d f s = find_func_loop env init b d (f + 1) s'"
      using find_func_next [OF assms(1) False f(1)] Suc(3) by auto
    moreover have "n = 8 - unat (f + 1)" using Suc(2) unat_inc_less [OF f(1)] by simp
    ultimately show ?thesis using Suc(1) [OF _ ne] f(2) False by simp
  qed
qed

lemma find_func_spec:
  assumes "pci_bus env cfg"
  shows "map_option location (fst (find_func_loop env init b d 0 s)) =
    map_option (\<lambda>f. (b, d, f)) (find (is_gpu cfg b d) (device_functions cfg b d))"
proof (cases "is_gpu cfg b d 0")
  case True
  then show ?thesis
    using find_func_found [OF assms True] gpu_present [OF True] by (simp add: device_functions_def upt_rec)
next
  case False
  obtain s' where s': "find_func_loop env init b d 0 s =
      (if \<not> (present cfg b d 0 \<and> multi_function cfg b d) then (None, s') else find_func_loop env init b d 1 s')"
    using find_func_next [OF assms False, of init s] unfolding add_0 by auto
  have "find (is_gpu cfg b d) (filter (present cfg b d) (map of_nat [0..<8])) = find (is_gpu cfg b d) (map of_nat [1..<8])"
    using False gpu_present by (subst find_filter) (auto simp: upt_conv_Cons [of 0 8])
  then show ?thesis
    using s' False find_func_tail [OF assms, of 1 init b d s'] by (auto simp: device_functions_def)
qed

abbreviation functions_of :: "(u32 \<Rightarrow> u32) \<Rightarrow> u8 \<Rightarrow> u8 \<Rightarrow> (u8 \<times> u8 \<times> u8) list" where
  "functions_of cfg b d \<equiv> map (\<lambda>f. (b, d, f)) (device_functions cfg b d)"

abbreviation first_gpu :: "(u32 \<Rightarrow> u32) \<Rightarrow> (u8 \<times> u8 \<times> u8) list \<Rightarrow> (u8 \<times> u8 \<times> u8) option" where
  "first_gpu cfg \<equiv> find (\<lambda>(b, d, f). is_gpu cfg b d f)"

lemma upt_next:
  fixes w :: "'a::len word"
  assumes "w < n"
  shows "[unat w..<unat n] = unat w # [unat (w + 1)..<unat n]"
  using assms unat_inc_less [OF assms] by (simp add: word_less_nat_alt upt_conv_Cons)

lemma find_device_spec:
  assumes "pci_bus env cfg"
  shows "map_option location (fst (find_device_loop env init b d s)) =
    first_gpu cfg (concat (map (\<lambda>d. functions_of cfg b (of_nat d)) [unat d..<unat (32 :: u8)]))"
proof (induction "unat (32 :: u8) - unat d" arbitrary: d s rule: less_induct)
  case less
  note f = find_func_spec [OF assms, of init b d s, folded find_map_pair [of "is_gpu cfg"]]
  show ?case
  proof (cases "d < 32")
    case True
    obtain r s' where r: "find_func_loop env init b d 0 s = (r, s')" by (cases "find_func_loop env init b d 0 s")
    show ?thesis
      using f r less [OF inc_measure [OF True], of s']
      by (subst find_device_loop.simps, cases r) (auto simp: True upt_next [OF True, simplified] find_append split: option.splits)
  next
    case False
    then show ?thesis by (subst find_device_loop.simps) (simp add: word_less_nat_alt)
  qed
qed

lemma find_bus_spec:
  assumes "pci_bus env cfg"
  shows "map_option location (fst (find_bus_loop env init b s)) =
    first_gpu cfg (concat (map (\<lambda>b. concat (map (\<lambda>d. functions_of cfg (of_nat b) (of_nat d)) [0..<32])) [unat b..<unat (256 :: u16)]))"
proof (induction "unat (256 :: u16) - unat b" arbitrary: b s rule: less_induct)
  case less
  note f = find_device_spec [OF assms, of init "ucast b" 0 s]
  have of_nat: "(of_nat (unat b) :: u8) = ucast b" by (simp add: unsigned_of_nat [symmetric])
  show ?case
  proof (cases "b < 256")
    case True
    obtain r s' where r: "find_device_loop env init (ucast b) 0 s = (r, s')" by (cases "find_device_loop env init (ucast b) 0 s")
    show ?thesis
      using f r less [OF inc_measure [OF True], of s']
      by (subst find_bus_loop.simps, cases r) (auto simp: True upt_next [OF True, simplified] find_append of_nat split: option.splits)
  next
    case False
    then show ?thesis by (subst find_bus_loop.simps) (simp add: word_less_nat_alt)
  qed
qed

text \<open>
  C35: The search for the graphics device by \<open>find_virtio_gpu\<close> is the search in a list: where
  the ports give access to a configuration space, it returns the first function of the bus, in the
  order of bus, device and function number, whose identifiers are those of the virtio graphics
  device, and nothing if there is none. The functions of the bus are those that answer; functions
  1 to 7 count only on a device whose function 0 answers and has the multi-function bit.
\<close>

theorem find_virtio_gpu_equiv:
  assumes "pci_bus env cfg"
  shows "map_option location (fst (find_virtio_gpu env init s)) = find (\<lambda>(b, d, f). is_gpu cfg b d f) (pci_functions cfg)"
  using find_bus_spec [OF assms, of init 0 s]
  by (simp add: find_virtio_gpu_def pci_functions_def map_concat comp_def)

text \<open>One device, with the graphics function as its third.\<close>

definition demo_cfg :: "u32 \<Rightarrow> u32" where
  "demo_cfg a = (if a = pci_address 0 1 2 0 then 0x10501AF4 else if a = pci_address 0 1 0 0 then 0x12378086
     else if a = pci_address 0 1 0 0x0C then 0x00800000 else 0xFFFFFFFF)"

definition demo_bus :: io_env where
  "demo_bus l = (case l of In32 p # Out32 q a # l \<Rightarrow> demo_cfg a | _ \<Rightarrow> 0)"

lemma demo_bus_ok: "pci_bus demo_bus demo_cfg"
  by (simp add: pci_bus_def demo_bus_def)

lemma demo_functions: "device_functions demo_cfg 0 0 = []" "device_functions demo_cfg 0 1 = [0, 2]"
  by code_simp+

lemma demo_first: "find (\<lambda>(b, d, f). is_gpu demo_cfg b d f) (pci_functions demo_cfg) = Some (0, 1, 2)"
proof -
  have "is_gpu demo_cfg 0 1 2" "\<not> is_gpu demo_cfg 0 1 0" by code_simp+
  then show ?thesis
    by (simp add: pci_functions_def upt_conv_Cons [of 0] upt_conv_Cons [of "Suc 0"] demo_functions del: upt_conv_Cons)
qed

theorem find_virtio_gpu_equiv_witness:
  "pci_bus demo_bus demo_cfg \<and>
   map_option location (fst (find_virtio_gpu demo_bus
     \<lparr>gpu_bus = 0, gpu_dev = 0, gpu_func = 0, bar_addr = replicate 6 0, bar_is_mem = replicate 6 0, irq = 0\<rparr> demo_screen)) = Some (0, 1, 2)"
  using find_virtio_gpu_equiv [OF demo_bus_ok] demo_bus_ok demo_first by simp

end
