(* ===== verification/Spec2Isabelle.thy ===== *)
theory Spec2Isabelle
  imports Page_Allocator Process_Properties File_Transfer Display_Properties
begin

text \<open>
  A verification of ImplusOS, a small 64-bit kernel (\<open>src/Kernel\<close>) with a UEFI loader
  (\<open>src/BootLoader\<close>) and one user program (\<open>src/Userland\<close>).

  Machine and memory. \<open>OS_Prelude\<close> names the machine integers and collects the word and
  list lemmas. \<open>Byte_Memory\<close> is the flat byte-addressed memory, with little-endian loads and
  stores and the routines of \<open>Kernel/Memory/Memory_Utils.c\<close> and \<open>Other_Utils.c\<close>. \<open>Machine\<close> holds
  the console log, the flags register and the spin locks.

  Kernel heap (\<open>Kernel/Memory/Memory_Main.c\<close>). \<open>Heap_Allocator\<close> translates the operations;
  \<open>Block_Chain\<close> relates the headers in memory to a list of blocks; \<open>Heap_Correct\<close> shows what
  the operations do to that list; \<open>Heap_Interface\<close> states the allocator's contract as a
  locale and interprets it on \<open>kmalloc\<close> and \<open>kfree\<close>; \<open>Heap_Properties\<close> has the properties.

  Physical pages (\<open>Kernel/Memory/Memory_Main.c\<close>). \<open>Page_Allocator\<close> has the page bitmap built from
  the firmware's memory map, \<open>alloc_page\<close> and \<open>free_page\<close>, with the locale of a page pool.

  Processes (\<open>Kernel/ProcessManager/ProcessManager_Create.c\<close>). \<open>Process_Manager\<close> translates the
  operations; \<open>Process_Scheduling\<close> shows what the two searches and a schedule do;
  \<open>Process_Properties\<close> has the properties.
\<close>

end
